theory Spec2Isabelle
  imports Main "HOL-Library.Word" "HOL-Library.AList"
begin

unbundle bit_operations_syntax

section \<open>Buffers\<close>

text \<open>
  A Node \<^verbatim>\<open>Buffer\<close> is a list of bytes. The three primitives the voice receiver uses are
  modelled with the behaviour of the runtime: an indexed read outside the buffer is
  \<^verbatim>\<open>undefined\<close> (here \<open>None\<close>), \<^verbatim>\<open>readUInt16BE\<close> and \<^verbatim>\<open>copy\<close> raise a
  \<^verbatim>\<open>RangeError\<close> on an offset outside their range, and \<^verbatim>\<open>slice\<close> clamps.
\<close>

type_synonym byte = "8 word"
type_synonym buffer = "byte list"

datatype error =
    RangeError
  | CouldntResolveUser
  | ExistingStream
  | NotOpen string
  | Thrown string

definition at :: "buffer \<Rightarrow> nat \<Rightarrow> byte option" where
  "at data i = (if i < length data then Some (data ! i) else None)"

definition readUInt16BE :: "buffer \<Rightarrow> nat \<Rightarrow> error + nat" where
  "readUInt16BE data off =
     (if off + 2 \<le> length data
      then Inr (unat (data ! off) * 256 + unat (data ! (off + 1)))
      else Inl RangeError)"

text \<open>
  \<^verbatim>\<open>buf.slice(start, end)\<close> with a non-negative \<^verbatim>\<open>start\<close>; \<^verbatim>\<open>end\<close> is absent
  (\<open>None\<close>, the length), or an integer that counts from the end when negative. Both ends
  are clamped to the buffer and an empty range gives the empty buffer.
\<close>

definition slice_buf :: "buffer \<Rightarrow> nat \<Rightarrow> int option \<Rightarrow> buffer" where
  "slice_buf data start end =
     (let len = int (length data);
          e = (case end of
                 None \<Rightarrow> len
               | Some e \<Rightarrow> if e < 0 then max 0 (len + e) else min e len)
      in drop start (take (nat e) data))"

text \<open>
  \<^verbatim>\<open>source.copy(target, targetStart, sourceStart, sourceEnd)\<close>: a negative
  \<^verbatim>\<open>sourceStart\<close> or \<^verbatim>\<open>sourceEnd\<close> raises; otherwise as many bytes as fit in both
  buffers are written into the target, whose other bytes keep their value. The result is
  the target after the call.
\<close>

definition copy :: "buffer \<Rightarrow> buffer \<Rightarrow> nat \<Rightarrow> int \<Rightarrow> int \<Rightarrow> error + buffer" where
  "copy source target targetStart sourceStart sourceEnd =
     (if sourceStart < 0 \<or> sourceEnd < 0 then Inl RangeError
      else if targetStart \<ge> length target \<or> sourceStart \<ge> sourceEnd then Inr target
      else if sourceStart > int (length source) then Inl RangeError
      else
        let nb = min (min (nat (sourceEnd - sourceStart)) (length target - targetStart))
                     (length source - nat sourceStart)
        in Inr (take targetStart target @ take nb (drop (nat sourceStart) source)
                @ drop (targetStart + nb) target))"

section \<open>RTP header-extension stripping\<close>

text \<open>
  The loop of \<^verbatim>\<open>handlePacket\<close> over the declared number of extension elements, as a
  recursion on the number of iterations left. \<^verbatim>\<open>data[offset]\<close> past the end is
  \<^verbatim>\<open>undefined\<close>, which is not \<^verbatim>\<open>=== 0\<close> and shifts to 0.
\<close>

definition nibble :: "byte \<Rightarrow> nat" where
  "nibble b = unat (15 AND drop_bit 4 b)"

fun extension_loop :: "nat \<Rightarrow> buffer \<Rightarrow> nat \<Rightarrow> nat" where
  "extension_loop 0 data offset = offset"
| "extension_loop (Suc n) data offset =
     (case at data offset of
        Some b \<Rightarrow>
          if b = 0 then extension_loop n data (offset + 1)
          else extension_loop n data (offset + 1 + (1 + nibble b))
      | None \<Rightarrow> extension_loop n data (offset + 1 + (1 + 0)))"

definition has_marker :: "buffer \<Rightarrow> bool" where
  "has_marker data \<longleftrightarrow> at data 0 = Some 0xBE \<and> at data 1 = Some 0xDE \<and> length data > 4"

definition strip_extensions :: "buffer \<Rightarrow> error + buffer" where
  "strip_extensions data =
     (if has_marker data then
        (case readUInt16BE data 2 of
           Inl e \<Rightarrow> Inl e
         | Inr headerExtensionLength \<Rightarrow>
             let offset = extension_loop headerExtensionLength data 4;
                 offset = offset + 1
             in Inr (slice_buf data offset None))
      else Inr data)"

text \<open>
  The rule as the specification words it: the length of an element is read from the low
  four bits of its leading byte. \<open>lead\<close> is the number of bytes counted for the leading
  byte itself, for the two readings of "advancing the cursor by 1 + low nibble": 0 when
  the leading byte is included in that count, 1 when it is counted apart.
\<close>

definition low_nibble :: "byte \<Rightarrow> nat" where
  "low_nibble b = unat (b AND 15)"

fun spec_cursor :: "nat \<Rightarrow> nat \<Rightarrow> buffer \<Rightarrow> nat \<Rightarrow> nat" where
  "spec_cursor lead 0 data offset = offset"
| "spec_cursor lead (Suc n) data offset =
     (case at data offset of
        Some b \<Rightarrow>
          if b = 0 then spec_cursor lead n data (offset + 1)
          else spec_cursor lead n data (offset + lead + (1 + low_nibble b))
      | None \<Rightarrow> spec_cursor lead n data (offset + lead + 1))"

definition spec_frame :: "nat \<Rightarrow> buffer \<Rightarrow> buffer" where
  "spec_frame lead data =
     (if has_marker data
      then drop (spec_cursor lead (unat (data ! 2) * 256 + unat (data ! 3)) data 4 + 1) data
      else data)"

text \<open>
  What the loop does, told on the bytes that are left instead of on a cursor: a zero
  byte is dropped alone, any other byte is dropped together with one byte more than its
  high four bits say, and past the end nothing is left to drop.
\<close>

fun skip_elements :: "nat \<Rightarrow> buffer \<Rightarrow> buffer" where
  "skip_elements 0 bs = bs"
| "skip_elements (Suc n) [] = []"
| "skip_elements (Suc n) (b # bs) =
     (if b = 0 then skip_elements n bs
      else skip_elements n (drop (1 + unat (drop_bit 4 b)) bs))"

section \<open>The voice receiver\<close>

subsection \<open>State\<close>

text \<open>
  User identities are snowflake strings; a source identifier is the unsigned 32-bit
  number read from the datagram. The receiver's tables are JavaScript \<^verbatim>\<open>Map\<close>s, which
  keep insertion order and are iterated by \<^verbatim>\<open>destroy\<close>: they are association lists,
  written with \<open>AList.update\<close> (replace in place or append) and \<open>AList.delete\<close> and
  read with \<open>map_of\<close>. Streams and decoders are objects that a caller may still hold
  after the receiver forgot them, so the tables hold addresses into two stores.
\<close>

type_synonym userid = string
type_synonym ssrc = nat

datatype chunk = Data buffer | EndOfStream

record readable =
  sopen :: bool
  pushed :: "chunk list"

datatype event =
    Warn string string
  | OpusEvent userid buffer
  | PcmEvent userid buffer
  | ErrorEvent string

datatype notification = Speaking userid ssrc bool

record timer =
  armed :: bool
  delay :: nat
  deadline :: nat

text \<open>
  What the receiver reads from its connection and its collaborators on every call: the
  negotiated mode and key, the map from source identifiers to users, the client's user
  resolver, the authenticated decryption primitive (\<open>None\<close> for a failed verification),
  the decoder's \<^verbatim>\<open>decode\<close> (given the decoder's address and whether it was destroyed;
  \<open>Inl\<close> carries the message of the error it throws), and whether the connection's
  \<^verbatim>\<open>onSpeaking\<close> throws on a notification.
\<close>

record session =
  encryptionMode :: string
  secretKey :: buffer
  ssrcMap :: "ssrc \<Rightarrow> userid option"
  resolveUser :: "string \<Rightarrow> userid option"
  secretbox_open :: "buffer \<Rightarrow> buffer \<Rightarrow> buffer \<Rightarrow> buffer option"
  decode :: "nat \<Rightarrow> bool \<Rightarrow> buffer \<Rightarrow> string + buffer"
  onSpeaking_throws :: "notification \<Rightarrow> bool"

text \<open>
  The fields of \<^verbatim>\<open>VoiceReceiver\<close>, followed by what its methods act on outside the
  object: how many times \<^verbatim>\<open>_listener\<close> is registered on the socket, the store of
  \<^verbatim>\<open>Readable\<close> streams, the store of decoders handed out by the codec engine (each
  with its destroyed flag), the events emitted, the calls of \<^verbatim>\<open>onSpeaking\<close>, the number
  of \<^verbatim>\<open>pcm\<close> listeners, and the nonce buffer, which is a constant of the module and so
  is shared by every call.
\<close>

record receiver =
  pcmStreams :: "(userid \<times> nat) list"
  opusStreams :: "(userid \<times> nat) list"
  opusEncoders :: "(userid \<times> nat) list"
  speakingTimeouts :: "(ssrc \<times> userid \<times> timer) list"
  destroyed :: bool
  disconnectTimer :: "timer option"
  listening :: nat
  heap :: "readable list"
  engine :: "bool list"
  emitted :: "event list"
  notified :: "notification list"
  pcmListeners :: nat
  nonce :: buffer

definition VoiceReceiver_new :: receiver where
  "VoiceReceiver_new =
     \<lparr>pcmStreams = [], opusStreams = [], opusEncoders = [], speakingTimeouts = [],
      destroyed = False, disconnectTimer = None, listening = 1, heap = [], engine = [],
      emitted = [], notified = [], pcmListeners = 0, nonce = replicate 24 0\<rparr>"

definition emit :: "event \<Rightarrow> receiver \<Rightarrow> receiver" where
  "emit e r = r\<lparr>emitted := emitted r @ [e]\<rparr>"

text \<open>
  Modelled from the spec: \<^verbatim>\<open>VoiceReadable\<close> is not among the sources. The specification
  gives a push-driven stream with \<^verbatim>\<open>push(data | end)\<close>; both \<^verbatim>\<open>push\<close> and the
  receiver's \<^verbatim>\<open>_push\<close> append the chunk to what the stream at that address was given.
\<close>

definition push :: "nat \<Rightarrow> chunk \<Rightarrow> readable list \<Rightarrow> readable list" where
  "push a c h = (if a < length h then h[a := (h ! a)\<lparr>pushed := pushed (h ! a) @ [c]\<rparr>] else h)"

definition new_Readable :: readable where
  "new_Readable = \<lparr>sopen = True, pushed = []\<rparr>"

definition setTimeout :: "nat \<Rightarrow> nat \<Rightarrow> timer" where
  "setTimeout now d = \<lparr>armed = True, delay = d, deadline = now + d\<rparr>"

definition refresh :: "nat \<Rightarrow> timer \<Rightarrow> timer" where
  "refresh now t = t\<lparr>armed := True, deadline := now + delay t\<rparr>"

subsection \<open>Streams\<close>

definition createOpusStream :: "session \<Rightarrow> string \<Rightarrow> receiver \<Rightarrow> error + nat \<times> receiver" where
  "createOpusStream c user r =
     (case resolveUser c user of
        None \<Rightarrow> Inl CouldntResolveUser
      | Some uid \<Rightarrow>
          (case map_of (opusStreams r) uid of
             Some existing \<Rightarrow> Inl ExistingStream
           | None \<Rightarrow>
               let stream = length (heap r)
               in Inr (stream, r\<lparr>heap := heap r @ [new_Readable],
                                  opusStreams := AList.update uid stream (opusStreams r)\<rparr>)))"

definition createPCMStream :: "session \<Rightarrow> string \<Rightarrow> receiver \<Rightarrow> error + nat \<times> receiver" where
  "createPCMStream c user r =
     (case resolveUser c user of
        None \<Rightarrow> Inl CouldntResolveUser
      | Some uid \<Rightarrow>
          (case map_of (pcmStreams r) uid of
             Some existing \<Rightarrow> Inl ExistingStream
           | None \<Rightarrow>
               let stream = length (heap r)
               in Inr (stream, r\<lparr>heap := heap r @ [new_Readable],
                                  pcmStreams := AList.update uid stream (pcmStreams r)\<rparr>)))"

definition close_stream :: "nat \<Rightarrow> readable list \<Rightarrow> readable list" where
  "close_stream a h = (if a < length h then h[a := (h ! a)\<lparr>sopen := False\<rparr>] else h)"

definition destroy_decoder :: "nat \<Rightarrow> bool list \<Rightarrow> bool list" where
  "destroy_decoder d g = (if d < length g then g[d := True] else g)"

definition stoppedSpeaking :: "userid \<Rightarrow> receiver \<Rightarrow> receiver" where
  "stoppedSpeaking uid r =
     (let opusStream = map_of (opusStreams r) uid;
          pcmStream = map_of (pcmStreams r) uid;
          opusEncoder = map_of (opusEncoders r) uid;
          r = (case opusStream of
                 Some a \<Rightarrow> r\<lparr>heap := close_stream a (push a EndOfStream (heap r)),
                              opusStreams := AList.delete uid (opusStreams r)\<rparr>
               | None \<Rightarrow> r);
          r = (case pcmStream of
                 Some a \<Rightarrow> r\<lparr>heap := close_stream a (push a EndOfStream (heap r)),
                              pcmStreams := AList.delete uid (pcmStreams r)\<rparr>
               | None \<Rightarrow> r)
      in (case opusEncoder of
            Some d \<Rightarrow> r\<lparr>engine := destroy_decoder d (engine r)\<rparr>
          | None \<Rightarrow> r))"

text \<open>
  The three loops of \<^verbatim>\<open>destroy\<close>: the entries still to visit, the table they are
  deleted from, and the store the visit acts on.
\<close>

fun end_streams ::
  "(userid \<times> nat) list \<Rightarrow> (userid \<times> nat) list \<Rightarrow> readable list
     \<Rightarrow> (userid \<times> nat) list \<times> readable list" where
  "end_streams [] tab h = (tab, h)"
| "end_streams ((uid, stream) # rest) tab h =
     end_streams rest (AList.delete uid tab) (push stream EndOfStream h)"

fun destroy_encoders ::
  "(userid \<times> nat) list \<Rightarrow> (userid \<times> nat) list \<Rightarrow> bool list
     \<Rightarrow> (userid \<times> nat) list \<times> bool list" where
  "destroy_encoders [] tab g = (tab, g)"
| "destroy_encoders ((uid, encoder) # rest) tab g =
     destroy_encoders rest (AList.delete uid tab) (destroy_decoder encoder g)"

definition destroy :: "receiver \<Rightarrow> receiver" where
  "destroy r =
     (let r = r\<lparr>listening := listening r - 1\<rparr>;
          (pcm, h) = end_streams (pcmStreams r) (pcmStreams r) (heap r);
          r = r\<lparr>pcmStreams := pcm, heap := h\<rparr>;
          (opus, h) = end_streams (opusStreams r) (opusStreams r) (heap r);
          r = r\<lparr>opusStreams := opus, heap := h\<rparr>;
          (enc, g) = destroy_encoders (opusEncoders r) (opusEncoders r) (engine r);
          r = r\<lparr>opusEncoders := enc, engine := g\<rparr>
      in r\<lparr>destroyed := True\<rparr>)"

definition recreate :: "receiver \<Rightarrow> receiver" where
  "recreate r =
     (if \<not> destroyed r then r
      else r\<lparr>listening := listening r + 1, destroyed := False\<rparr>)"

subsection \<open>Packets\<close>

text \<open>
  The first statement of \<^verbatim>\<open>handlePacket\<close>: the bytes copied into the module's nonce
  buffer and the \<^verbatim>\<open>end\<close> of the ciphertext slice, which stays \<^verbatim>\<open>undefined\<close> in
  the last branch.
\<close>

definition select_nonce :: "string \<Rightarrow> buffer \<Rightarrow> buffer \<Rightarrow> error + buffer \<times> int option" where
  "select_nonce mode msg nonce0 =
     (if mode = ''xsalsa20_poly1305_lite'' then
        (case copy msg nonce0 0 (int (length msg) - 4) (int (length msg)) of
           Inl e \<Rightarrow> Inl e
         | Inr n \<Rightarrow> Inr (n, Some (int (length msg) - 4)))
      else if mode = ''xsalsa20_poly1305_suffix'' then
        (case copy msg nonce0 0 (int (length msg) - 24) (int (length msg)) of
           Inl e \<Rightarrow> Inl e
         | Inr n \<Rightarrow> Inr (n, Some (int (length msg) - 24)))
      else
        (case copy msg nonce0 0 0 12 of
           Inl e \<Rightarrow> Inl e
         | Inr n \<Rightarrow> Inr (n, None)))"

text \<open>
  The rest of \<^verbatim>\<open>handlePacket\<close> once the payload is decrypted and stripped: the raw
  frame goes to the user's opus stream and to the \<^verbatim>\<open>opus\<close> event, and is decoded
  under the guard of the source.
\<close>

definition fan_out :: "session \<Rightarrow> buffer \<Rightarrow> userid \<Rightarrow> receiver \<Rightarrow> receiver" where
  "fan_out c data uid r =
     (let r = (case map_of (opusStreams r) uid of
                 Some a \<Rightarrow> r\<lparr>heap := push a (Data data) (heap r)\<rparr>
               | None \<Rightarrow> r);
          r = emit (OpusEvent uid data) r
      in if pcmListeners r > 0 \<or> length (pcmStreams r) > 0 then
           let (d, r) = (case map_of (opusEncoders r) uid of
                           Some d \<Rightarrow> (d, r)
                         | None \<Rightarrow>
                             let d = length (engine r)
                             in (d, r\<lparr>engine := engine r @ [False],
                                      opusEncoders := AList.update uid d (opusEncoders r)\<rparr>))
           in (case decode c d (engine r ! d) data of
                 Inl message \<Rightarrow>
                   emit (Warn ''decode''
                     (''Failed to decode packet voice to PCM because: '' @ message)) r
               | Inr pcm \<Rightarrow>
                   let r = (case map_of (pcmStreams r) uid of
                              Some a \<Rightarrow> r\<lparr>heap := push a (Data pcm) (heap r)\<rparr>
                            | None \<Rightarrow> r)
                   in emit (PcmEvent uid pcm) r)
         else r)"

text \<open>
  A method that throws leaves the state as it was when the exception was raised: the
  result is the exception, if any, and the state.
\<close>

definition handlePacket ::
  "session \<Rightarrow> buffer \<Rightarrow> userid \<Rightarrow> receiver \<Rightarrow> error option \<times> receiver" where
  "handlePacket c msg uid r =
     (case select_nonce (encryptionMode c) msg (nonce r) of
        Inl e \<Rightarrow> (Some e, r)
      | Inr (n, end) \<Rightarrow>
          let r = r\<lparr>nonce := n\<rparr>
          in (case secretbox_open c (slice_buf msg 12 end) n (secretKey c) of
                None \<Rightarrow> (None, emit (Warn ''decrypt'' ''Failed to decrypt voice packet'') r)
              | Some data \<Rightarrow>
                  (case strip_extensions data of
                     Inl e \<Rightarrow> (Some e, r)
                   | Inr frame \<Rightarrow> (None, fan_out c frame uid r))))"

definition readUInt8 :: "buffer \<Rightarrow> nat \<Rightarrow> error + nat" where
  "readUInt8 data off =
     (if off + 1 \<le> length data then Inr (unat (data ! off)) else Inl RangeError)"

definition readUInt32BE :: "buffer \<Rightarrow> nat \<Rightarrow> error + nat" where
  "readUInt32BE data off =
     (if off + 4 \<le> length data
      then Inr (((unat (data ! off) * 256 + unat (data ! (off + 1))) * 256
                 + unat (data ! (off + 2))) * 256 + unat (data ! (off + 3)))
      else Inl RangeError)"

text \<open>
  \<^verbatim>\<open>_listener\<close>, called with the time of the call. Its two log lines have no effect on
  the state and are left out.
\<close>

definition listener ::
  "session \<Rightarrow> nat \<Rightarrow> buffer \<Rightarrow> receiver \<Rightarrow> error option \<times> receiver" where
  "listener c now msg r =
     (let r = (case disconnectTimer r of
                 None \<Rightarrow> r\<lparr>disconnectTimer := Some (setTimeout now 3000)\<rparr>
               | Some t \<Rightarrow> r\<lparr>disconnectTimer := Some (refresh now t)\<rparr>)
      in case readUInt8 msg 0 of
           Inl e \<Rightarrow> (Some e, r)
         | Inr packageType \<Rightarrow>
        (case readUInt32BE msg 8 of
           Inl e \<Rightarrow> (Some e, r)
         | Inr source \<Rightarrow>
        (case ssrcMap c source of
           None \<Rightarrow> (None, r)
         | Some userID \<Rightarrow>
        (case map_of (speakingTimeouts r) source of
           None \<Rightarrow>
             let r = r\<lparr>notified := notified r @ [Speaking userID source True]\<rparr>
             in if onSpeaking_throws c (Speaking userID source True)
                then (Some (Thrown ''onSpeaking''), r)
                else handlePacket c msg userID
                       (r\<lparr>speakingTimeouts :=
                            AList.update source (userID, setTimeout now 70) (speakingTimeouts r)\<rparr>)
         | Some (u, t) \<Rightarrow>
             handlePacket c msg userID
               (r\<lparr>speakingTimeouts :=
                    AList.update source (u, refresh now t) (speakingTimeouts r)\<rparr>)))))"

subsection \<open>Timers\<close>

text \<open>
  The callback of a speaking timer, with the user and source identifier its closure
  captured, and the callback of the liveness timer.
\<close>

definition speaking_timeout :: "session \<Rightarrow> ssrc \<Rightarrow> userid \<Rightarrow> receiver \<Rightarrow> receiver" where
  "speaking_timeout c source userID r =
     (let r = r\<lparr>notified := notified r @ [Speaking userID source False]\<rparr>
      in if onSpeaking_throws c (Speaking userID source False) then r
         else r\<lparr>speakingTimeouts := AList.delete source (speakingTimeouts r)\<rparr>)"

definition disconnect_timeout :: "receiver \<Rightarrow> receiver" where
  "disconnect_timeout r =
     (let r = r\<lparr>disconnectTimer := None\<rparr>
      in if \<not> destroyed r then emit (ErrorEvent ''reconnect_required'') r else r)"

text \<open>
  The runtime's part: at time \<open>now\<close> every armed timer whose deadline has come fires
  once, which disarms it and runs its callback. A refresh arms a timer again, also one
  that has fired.
\<close>

fun run_speaking_timers ::
  "session \<Rightarrow> nat \<Rightarrow> (ssrc \<times> userid \<times> timer) list \<Rightarrow> receiver \<Rightarrow> receiver" where
  "run_speaking_timers c now [] r = r"
| "run_speaking_timers c now ((source, u, t) # rest) r =
     run_speaking_timers c now rest
       (if armed t \<and> deadline t \<le> now
        then speaking_timeout c source u
               (r\<lparr>speakingTimeouts :=
                    AList.update source (u, t\<lparr>armed := False\<rparr>) (speakingTimeouts r)\<rparr>)
        else r)"

definition run_timers :: "session \<Rightarrow> nat \<Rightarrow> receiver \<Rightarrow> receiver" where
  "run_timers c now r =
     (let r = run_speaking_timers c now (speakingTimeouts r) r
      in case disconnectTimer r of
           None \<Rightarrow> r
         | Some t \<Rightarrow> if armed t \<and> deadline t \<le> now then disconnect_timeout r else r)"

text \<open>
  A run of the receiver over datagrams, each with its arrival time: the timers that are
  due at that time fire, then the listener is called. An exception of the listener ends
  that call only.
\<close>

fun receive :: "session \<Rightarrow> (nat \<times> buffer) list \<Rightarrow> receiver \<Rightarrow> receiver" where
  "receive c [] r = r"
| "receive c ((now, msg) # rest) r =
     receive c rest (snd (listener c now msg (run_timers c now r)))"

subsection \<open>A session for the examples\<close>

definition alice_session :: session where
  "alice_session =
     \<lparr>encryptionMode = ''xsalsa20_poly1305_lite'', secretKey = [],
      ssrcMap = (\<lambda>s. if s = 7 then Some ''alice'' else None),
      resolveUser = (\<lambda>u. if u = ''alice'' then Some ''alice'' else None),
      secretbox_open = (\<lambda>cipher n k. Some cipher),
      decode = (\<lambda>d gone frame. if gone then Inl ''destroyed'' else Inr frame),
      onSpeaking_throws = (\<lambda>n. False)\<rparr>"

definition bob_listening :: receiver where
  "bob_listening = VoiceReceiver_new\<lparr>pcmStreams := [(''bob'', 0)], heap := [new_Readable]\<rparr>"

definition alice_lite_datagram :: buffer where
  "alice_lite_datagram = [0x90, 0x78, 0, 1, 0, 0, 0, 2, 0, 0, 0, 7, 1, 2, 3, 9, 9, 9, 9]"

definition alice_decoding :: receiver where
  "alice_decoding =
     VoiceReceiver_new\<lparr>pcmStreams := [(''alice'', 0)], heap := [new_Readable],
       opusEncoders := [(''alice'', 0)], engine := [False], pcmListeners := 1\<rparr>"

definition alice_speaking :: receiver where
  "alice_speaking = receive alice_session [(0, alice_lite_datagram)] VoiceReceiver_new"

definition alice_suffix_datagram :: buffer where
  "alice_suffix_datagram =
     [0x90, 0x78, 0, 1, 0, 0, 0, 2, 0, 0, 0, 7, 5, 6] @ replicate 24 0xAA"

definition suffix_session :: session where
  "suffix_session = alice_session\<lparr>encryptionMode := ''xsalsa20_poly1305_suffix''\<rparr>"

definition legacy_session :: session where
  "legacy_session = alice_session\<lparr>encryptionMode := ''xsalsa20_poly1305''\<rparr>"

subsection \<open>Speaking notifications\<close>

text \<open>
  The calls of \<^verbatim>\<open>onSpeaking\<close> for one source identifier, in the order they were made.
\<close>

definition notes_for :: "ssrc \<Rightarrow> receiver \<Rightarrow> notification list" where
  "notes_for s r = filter (\<lambda>n. case n of Speaking u s' b \<Rightarrow> s' = s) (notified r)"

text \<open>
  The datagrams of a run as one source sees them: the arrival time of each, and whether
  the source identifier read from it is this source.
\<close>

definition arrivals :: "ssrc \<Rightarrow> (nat \<times> buffer) list \<Rightarrow> (nat \<times> bool) list" where
  "arrivals s ps = map (\<lambda>(t, msg). (t, readUInt32BE msg 8 = Inr s)) ps"

text \<open>
  The speaking timer of one source as the specification describes it, told by its
  deadline: a timer whose deadline has come when a datagram arrives has fired, and a
  datagram of the source arms a timer of 70 ms. The notifications expected for the
  source: a stop whenever its timer fires, a start whenever a datagram of the source
  finds no timer.
\<close>

definition due :: "nat option \<Rightarrow> nat \<Rightarrow> bool" where
  "due st t = (case st of Some dl \<Rightarrow> dl \<le> t | None \<Rightarrow> False)"

definition timer_after :: "nat option \<Rightarrow> nat \<times> bool \<Rightarrow> nat option" where
  "timer_after st a =
     (if snd a then Some (fst a + 70) else if due st (fst a) then None else st)"

fun expected_timer :: "nat option \<Rightarrow> (nat \<times> bool) list \<Rightarrow> nat option" where
  "expected_timer st [] = st"
| "expected_timer st (a # as) = expected_timer (timer_after st a) as"

fun expected_notes ::
  "userid \<Rightarrow> ssrc \<Rightarrow> nat option \<Rightarrow> (nat \<times> bool) list \<Rightarrow> notification list" where
  "expected_notes u s st [] = []"
| "expected_notes u s st (a # as) =
     (if due st (fst a) then [Speaking u s False] else [])
       @ (if snd a \<and> (st = None \<or> due st (fst a)) then [Speaking u s True] else [])
       @ expected_notes u s (timer_after st a) as"

text \<open>
  Starts and stops take turns: \<open>alternating b ns\<close> when the notifications \<open>ns\<close>
  follow a state in which the source was speaking (\<open>b\<close>) or not.
\<close>

fun alternating :: "bool \<Rightarrow> notification list \<Rightarrow> bool" where
  "alternating b [] = True"
| "alternating b (Speaking u s b' # ns) = (b' = (\<not> b) \<and> alternating b' ns)"

text \<open>
  The datagrams of the source are less than 70 ms apart: each arrives less than 70 ms
  after the one of the source before it, whose arrival time is \<open>prev\<close>, if there was
  one.
\<close>

fun spaced_under_70 :: "nat option \<Rightarrow> (nat \<times> bool) list \<Rightarrow> bool" where
  "spaced_under_70 prev [] = True"
| "spaced_under_70 prev (a # as) =
     (if snd a
      then (case prev of None \<Rightarrow> True | Some p \<Rightarrow> fst a < p + 70) \<and>
           spaced_under_70 (Some (fst a)) as
      else spaced_under_70 prev as)"

text \<open>
  Two sessions whose \<^verbatim>\<open>onSpeaking\<close> throws: on every notification, and on the stops
  only.
\<close>

definition throwing_session :: session where
  "throwing_session = alice_session\<lparr>onSpeaking_throws := (\<lambda>n. True)\<rparr>"

definition stop_throwing_session :: session where
  "stop_throwing_session =
     alice_session\<lparr>onSpeaking_throws := (\<lambda>n. case n of Speaking u s b \<Rightarrow> \<not> b)\<rparr>"

text \<open>A datagram of another source, 9, which resolves to bob.\<close>

definition bob_lite_datagram :: buffer where
  "bob_lite_datagram = [0x90, 0x78, 0, 1, 0, 0, 0, 2, 0, 0, 0, 9, 4, 5, 6, 8, 8, 8, 8]"

definition two_speakers :: session where
  "two_speakers =
     alice_session\<lparr>ssrcMap := (\<lambda>s. if s = 7 then Some ''alice''
                                   else if s = 9 then Some ''bob'' else None)\<rparr>"

section \<open>The voice WebSocket\<close>

subsection \<open>State\<close>

text \<open>
  A transport is one \<^verbatim>\<open>WebSocket\<close> object: the endpoint and protocol version it was
  opened with, its \<^verbatim>\<open>readyState\<close>, and the texts handed to its \<^verbatim>\<open>send\<close>. Every
  transport the state machine created is kept in a store, since a transport the machine
  let go of still exists and still calls back; \<^verbatim>\<open>this.ws\<close> is an address in the store.
\<close>

datatype readyState = CONNECTING | OPEN | CLOSING | CLOSED

record transport =
  endpoint :: string
  version :: nat
  readyState :: readyState
  written :: "string list"

text \<open>
  Modelled from the spec: \<^verbatim>\<open>Constants.VoiceOPCodes\<close> is not among the sources. The
  specification names the operation codes INFO, READY, SESSION_DESCRIPTION, SPEAKING,
  PONG, IDENTIFY and HEARTBEAT and an unrecognized code; they are taken to be distinct.
\<close>

datatype opcode =
  IDENTIFY | HEARTBEAT | INFO | READY | SESSION_DESCRIPTION | SPEAKING | PONG | OTHER nat

text \<open>
  The \<^verbatim>\<open>d\<close> of a received packet: absent, a number, or an object, whose fields may be
  absent. A heartbeat interval that is absent stands for every value that is not a
  number.
\<close>

record payload =
  heartbeat_interval :: "int option"
  payload_v :: "int option"
  payload_mode :: "string option"
  secret_key :: "buffer option"

datatype jsval = Undefined | Number int | Object payload

datatype packet = Packet (packet_op: opcode) (packet_d: jsval)

datatype outgoing = Identify string string string string | Heartbeat nat

datatype wsevent =
    Debug nat
  | WsWarn string
  | WsError string
  | ReadyEvent jsval
  | SessionDescription "string option" "buffer option"
  | StartSpeaking jsval
  | UnknownPacket packet

datatype 'a promise = Resolved 'a | Rejected error

text \<open>
  What the state machine reads from its voice connection and client, and
  \<^verbatim>\<open>JSON.stringify\<close>, which returns the text of a packet or throws.
\<close>

record voice =
  voice_endpoint :: string
  server_id :: string
  user_id :: string
  token :: string
  sessionID :: string
  stringify :: "outgoing \<Rightarrow> error + string"

record websocket =
  attempts :: nat
  apiVersion :: nat
  lastPongPacket :: jsval
  dead :: bool
  ws :: "nat option"
  heartbeatInterval :: "int option"
  transports :: "transport list"
  events :: "wsevent list"

subsection \<open>Methods\<close>

definition emit_ws :: "wsevent \<Rightarrow> websocket \<Rightarrow> websocket" where
  "emit_ws e s = s\<lparr>events := events s @ [e]\<rparr>"

definition set_readyState :: "nat \<Rightarrow> readyState \<Rightarrow> websocket \<Rightarrow> websocket" where
  "set_readyState h st s =
     s\<lparr>transports := (transports s)[h := (transports s ! h)\<lparr>readyState := st\<rparr>]\<rparr>"

definition clearHeartbeat :: "websocket \<Rightarrow> websocket" where
  "clearHeartbeat s =
     (case heartbeatInterval s of
        None \<Rightarrow> emit_ws (WsWarn ''Tried to clear a heartbeat interval that does not exist'') s
      | Some i \<Rightarrow> s\<lparr>heartbeatInterval := None\<rparr>)"

text \<open>\<^verbatim>\<open>ws.close()\<close> starts the closing handshake: the transport is closing.\<close>

definition reset :: "websocket \<Rightarrow> websocket" where
  "reset s =
     (let s = (case ws s of
                 Some h \<Rightarrow>
                   (if readyState (transports s ! h) \<noteq> CLOSED
                    then set_readyState h CLOSING s else s)\<lparr>ws := None\<rparr>
               | None \<Rightarrow> s)
      in clearHeartbeat s)"

definition shutdown :: "websocket \<Rightarrow> websocket" where
  "shutdown s = reset (s\<lparr>dead := True\<rparr>)"

definition connect :: "voice \<Rightarrow> websocket \<Rightarrow> websocket" where
  "connect c s =
     (if dead s then s
      else
        let s = (if ws s \<noteq> None then reset s else s)
        in if attempts s \<ge> 5 then emit_ws (Debug (attempts s)) s
           else
             let s = s\<lparr>attempts := attempts s + 1\<rparr>
             in s\<lparr>ws := Some (length (transports s)),
                  transports := transports s @
                    [\<lparr>endpoint = voice_endpoint c, version = apiVersion s,
                      readyState = CONNECTING, written = []\<rparr>]\<rparr>)"

text \<open>
  The constructor sets the counters, calls \<^verbatim>\<open>connect\<close> while \<^verbatim>\<open>this.dead\<close> is still
  undefined, which \<^verbatim>\<open>connect\<close> reads as false, and sets it to false afterwards.
\<close>

definition fresh_websocket :: websocket where
  "fresh_websocket =
     \<lparr>attempts = 0, apiVersion = 4, lastPongPacket = Number 0, dead = False,
      ws = None, heartbeatInterval = None, transports = [], events = []\<rparr>"

definition VoiceWebSocket_new :: "voice \<Rightarrow> websocket" where
  "VoiceWebSocket_new c = (connect c fresh_websocket)\<lparr>dead := False\<rparr>"

text \<open>
  \<^verbatim>\<open>send\<close>: the promise it returns, settled by the transport's callback (\<open>wr\<close> is the
  error the transport reports, if any), and the state. A throw in the executor of a
  promise rejects the promise.
\<close>

definition send :: "error option \<Rightarrow> string \<Rightarrow> websocket \<Rightarrow> string promise \<times> websocket" where
  "send wr data s =
     (case ws s of
        None \<Rightarrow> (Rejected (NotOpen data), s)
      | Some h \<Rightarrow>
          if readyState (transports s ! h) \<noteq> OPEN then (Rejected (NotOpen data), s)
          else
            (case wr of Some e \<Rightarrow> Rejected e | None \<Rightarrow> Resolved data,
             s\<lparr>transports := (transports s)
                  [h := (transports s ! h)\<lparr>written := written (transports s ! h) @ [data]\<rparr>]\<rparr>))"

definition sendPacket ::
  "voice \<Rightarrow> error option \<Rightarrow> outgoing \<Rightarrow> websocket \<Rightarrow> string promise \<times> websocket" where
  "sendPacket c wr packet s =
     (case stringify c packet of
        Inl e \<Rightarrow> (Rejected e, s)
      | Inr text \<Rightarrow> send wr text s)"

definition onOpen :: "voice \<Rightarrow> error option \<Rightarrow> websocket \<Rightarrow> websocket" where
  "onOpen c wr s =
     (case sendPacket c wr (Identify (server_id c) (user_id c) (token c) (sessionID c)) s of
        (Rejected e, s) \<Rightarrow>
          emit_ws (WsError ''Tried to send join packet, but the WebSocket is not open.'') s
      | (Resolved text, s) \<Rightarrow> s)"

definition onError :: "string \<Rightarrow> websocket \<Rightarrow> websocket" where
  "onError message s =
     (if \<not> dead s then
        if message = ''uWs client connection error''
        then emit_ws (WsError ''reconnect_required'') (reset s)
        else emit_ws (WsError message) s
      else s)"

definition onClose :: "websocket \<Rightarrow> websocket" where
  "onClose s =
     (let s = reset s
      in if \<not> dead s then emit_ws (WsError ''reconnect_required'') s else s)"

definition setHeartbeat :: "int option \<Rightarrow> websocket \<Rightarrow> websocket" where
  "setHeartbeat interval s =
     (if interval = None \<or> interval = Some 0
      then onError ''Tried to set voice heartbeat but no valid interval was specified.'' s
      else
        let s = (case heartbeatInterval s of
                   Some i \<Rightarrow> emit_ws (WsWarn ''A voice heartbeat interval is being overwritten'') s
                 | None \<Rightarrow> s)
        in s\<lparr>heartbeatInterval := interval\<rparr>)"

text \<open>
  \<^verbatim>\<open>onPacket\<close> throws a \<^verbatim>\<open>TypeError\<close> when it reads a field of an absent \<^verbatim>\<open>d\<close>; a
  number has no fields. The \<^verbatim>\<open>SecretKey\<close> constructor is not among the sources and is
  taken not to throw.
\<close>

definition onPacket :: "packet \<Rightarrow> websocket \<Rightarrow> error + websocket" where
  "onPacket packet s =
     (case packet_op packet of
        INFO \<Rightarrow>
          (case packet_d packet of
             Undefined \<Rightarrow> Inl (Thrown ''TypeError'')
           | Number n \<Rightarrow> Inr (setHeartbeat None s)
           | Object p \<Rightarrow> Inr (setHeartbeat (heartbeat_interval p) s))
      | READY \<Rightarrow> Inr (emit_ws (ReadyEvent (packet_d packet)) s)
      | SESSION_DESCRIPTION \<Rightarrow>
          (case packet_d packet of
             Undefined \<Rightarrow> Inl (Thrown ''TypeError'')
           | Number n \<Rightarrow> Inr (emit_ws (SessionDescription None None) s)
           | Object p \<Rightarrow> Inr (emit_ws (SessionDescription (payload_mode p) (secret_key p)) s))
      | SPEAKING \<Rightarrow> Inr (emit_ws (StartSpeaking (packet_d packet)) s)
      | PONG \<Rightarrow> Inr (s\<lparr>lastPongPacket := packet_d packet\<rparr>)
      | _ \<Rightarrow> Inr (emit_ws (UnknownPacket packet) s))"

definition error_message :: "error \<Rightarrow> string" where
  "error_message e =
     (case e of
        Thrown m \<Rightarrow> m
      | NotOpen data \<Rightarrow> ''Voice websocket not open to send '' @ data @ ''.''
      | RangeError \<Rightarrow> ''RangeError''
      | CouldntResolveUser \<Rightarrow> ''Couldn't resolve the user''
      | ExistingStream \<Rightarrow> ''There is already an existing stream for that user.'')"

text \<open>
  \<^verbatim>\<open>onMessage\<close>, given what \<^verbatim>\<open>JSON.parse\<close> made of the event's data: the message of
  the error it threw, or the packet.
\<close>

definition onMessage :: "string + packet \<Rightarrow> websocket \<Rightarrow> websocket" where
  "onMessage parsed s =
     (case parsed of
        Inl message \<Rightarrow> onError message s
      | Inr packet \<Rightarrow>
          (case onPacket packet s of
             Inl e \<Rightarrow> onError (error_message e) s
           | Inr s' \<Rightarrow> s'))"

definition sendHeartbeat :: "voice \<Rightarrow> nat \<Rightarrow> error option \<Rightarrow> websocket \<Rightarrow> websocket" where
  "sendHeartbeat c now wr s =
     (case sendPacket c wr (Heartbeat now) s of
        (Rejected e, s) \<Rightarrow>
          clearHeartbeat
            (emit_ws (WsWarn ''Tried to send heartbeat, but connection is not open'') s)
      | (Resolved text, s) \<Rightarrow> s)"

subsection \<open>Runs\<close>

text \<open>
  What can happen to the state machine: a call of \<^verbatim>\<open>connect\<close> or \<^verbatim>\<open>shutdown\<close>; a
  connecting transport opens and calls \<^verbatim>\<open>onopen\<close>; a transport that is open or
  closing delivers a message; an open transport starts closing; a transport that is not
  closed closes and calls \<^verbatim>\<open>onclose\<close>; a transport reports an error; the heartbeat
  timer, if there is one, ticks. The callbacks are bound to the state machine, not to the
  transport it holds, and \<^verbatim>\<open>reset\<close> does not detach them, so a transport the machine
  let go of calls them too, and a transport delivers the messages it receives until it
  has closed. An action that cannot happen in a state leaves it as it is.
\<close>

datatype action =
    Connect
  | Shutdown
  | Opened nat "error option"
  | Message nat "string + packet"
  | Closing nat
  | Closed nat
  | Errored nat string
  | Beat nat "error option"

fun step :: "voice \<Rightarrow> action \<Rightarrow> websocket \<Rightarrow> websocket" where
  "step c Connect s = connect c s"
| "step c Shutdown s = shutdown s"
| "step c (Opened h wr) s =
     (if h < length (transports s) \<and> readyState (transports s ! h) = CONNECTING
      then onOpen c wr (set_readyState h OPEN s) else s)"
| "step c (Message h parsed) s =
     (if h < length (transports s) \<and>
         (readyState (transports s ! h) = OPEN \<or> readyState (transports s ! h) = CLOSING)
      then onMessage parsed s else s)"
| "step c (Closing h) s =
     (if h < length (transports s) \<and> readyState (transports s ! h) = OPEN
      then set_readyState h CLOSING s else s)"
| "step c (Closed h) s =
     (if h < length (transports s) \<and> readyState (transports s ! h) \<noteq> CLOSED
      then onClose (set_readyState h CLOSED s) else s)"
| "step c (Errored h message) s =
     (if h < length (transports s) then onError message s else s)"
| "step c (Beat now wr) s =
     (if heartbeatInterval s \<noteq> None then sendHeartbeat c now wr s else s)"

fun run :: "voice \<Rightarrow> action list \<Rightarrow> websocket \<Rightarrow> websocket" where
  "run c [] s = s"
| "run c (a # as) s = run c as (step c a s)"


definition transport_open :: "websocket \<Rightarrow> bool" where
  "transport_open s \<longleftrightarrow>
     (case ws s of Some h \<Rightarrow> readyState (transports s ! h) = OPEN | None \<Rightarrow> False)"

definition debugs :: "websocket \<Rightarrow> wsevent list" where
  "debugs s = filter (\<lambda>e. case e of Debug n \<Rightarrow> True | _ \<Rightarrow> False) (events s)"

definition example_voice :: voice where
  "example_voice =
     \<lparr>voice_endpoint = ''voice.example'', server_id = ''1'', user_id = ''2'', token = ''t'',
      sessionID = ''s'', stringify = (\<lambda>p. case p of
          Identify a b c e \<Rightarrow> Inr ''identify''
        | Heartbeat n \<Rightarrow> if n = 0 then Inl (Thrown ''cyclic'') else Inr ''heartbeat'')\<rparr>"

subsection \<open>The invariant of the runs\<close>

text \<open>
  Every address the state machine holds is in the store, and a transport that is
  connecting or open is the one it holds; a dead machine holds no transport; and a
  heartbeat timer exists only while some transport in the store is open or closing.
\<close>

definition handles_ok :: "websocket \<Rightarrow> bool" where
  "handles_ok s \<longleftrightarrow>
     (\<forall>h. ws s = Some h \<longrightarrow> h < length (transports s)) \<and>
     (\<forall>h < length (transports s).
        readyState (transports s ! h) \<in> {CONNECTING, OPEN} \<longrightarrow> ws s = Some h)"

definition live_transport :: "websocket \<Rightarrow> bool" where
  "live_transport s \<longleftrightarrow>
     list_ex (\<lambda>t. readyState t = OPEN \<or> readyState t = CLOSING) (transports s)"




section \<open>Properties\<close>

subsection \<open>Header-extension stripping\<close>

lemma nibble_high: "nibble b = unat (drop_bit 4 b)"
proof -
  have m: "(15 :: byte) = mask 4"
    by (simp add: mask_eq_exp_minus_1)
  have "take_bit 4 (drop_bit 4 b) = drop_bit 4 b"
  proof (rule bit_word_eqI)
    fix n assume "n < LENGTH(8)"
    have "bit b (4 + n) \<Longrightarrow> n < 4"
      using bit_imp_le_length [of b "4 + n"] by simp
    then show "bit (take_bit 4 (drop_bit 4 b)) n \<longleftrightarrow> bit (drop_bit 4 b) n"
      by (auto simp: bit_simps)
  qed
  moreover have "mask 4 AND drop_bit 4 b = take_bit 4 (drop_bit 4 b)"
    by (simp add: take_bit_eq_mask and.commute)
  ultimately show ?thesis
    unfolding nibble_def m by simp
qed

lemma skip_elements_Nil: "skip_elements n [] = []"
  by (cases n) simp_all

lemma extension_loop_skip:
  "drop (extension_loop n data offset) data = skip_elements n (drop offset data)"
proof (induction n arbitrary: offset)
  case 0
  show ?case by simp
next
  case (Suc n)
  show ?case
  proof (cases "offset < length data")
    case True
    then have d: "drop offset data = data ! offset # drop (Suc offset) data"
      by (simp add: Cons_nth_drop_Suc)
    show ?thesis
      using True Suc.IH [of "offset + 1"] Suc.IH [of "offset + 1 + (1 + nibble (data ! offset))"]
      by (simp add: at_def d nibble_high add.commute add.left_commute)
  next
    case False
    then show ?thesis
      using Suc.IH [of "offset + 1 + (1 + 0)"]
      by (simp add: at_def skip_elements_Nil)
  qed
qed

lemma readUInt16BE_marker:
  "has_marker data \<Longrightarrow> readUInt16BE data 2 = Inr (unat (data ! 2) * 256 + unat (data ! 3))"
  by (simp add: has_marker_def readUInt16BE_def numeral_3_eq_3)

lemma slice_to_end: "slice_buf data start None = drop start data"
  by (simp add: slice_buf_def)

text \<open>
  What the code computes. Stripping never fails. A payload that starts with 0xBE 0xDE
  and is longer than 4 bytes loses its first 4 bytes, then as many elements as the
  big-endian 16-bit count at offset 2 declares, then one byte more; an element is a
  single zero byte, or a non-zero byte followed by one byte more than the high four bits
  of that byte say. Any other payload is returned whole.
\<close>

lemma strip_extensions_high_nibble:
  "strip_extensions data =
     Inr (if has_marker data
          then drop 1 (skip_elements (unat (data ! 2) * 256 + unat (data ! 3)) (drop 4 data))
          else data)"
proof (cases "has_marker data")
  case True
  have "drop (extension_loop n data 4 + 1) data = drop 1 (skip_elements n (drop 4 data))" for n
  proof -
    have "drop (extension_loop n data 4 + 1) data = drop 1 (drop (extension_loop n data 4) data)"
      by (simp only: drop_drop add.commute)
    then show ?thesis by (simp only: extension_loop_skip)
  qed
  with True show ?thesis
    by (simp add: strip_extensions_def readUInt16BE_marker slice_to_end)
next
  case False
  then show ?thesis by (simp add: strip_extensions_def)
qed

lemma strip_extensions_padding_example:
  "has_marker [0xBE, 0xDE, 0, 3, 0, 0x10, 7, 8, 0, 9, 1, 2] \<and>
   strip_extensions [0xBE, 0xDE, 0, 3, 0, 0x10, 7, 8, 0, 9, 1, 2] = Inr [1, 2] \<and>
   \<not> has_marker [0xBE, 0xDD, 0, 3, 0] \<and>
   strip_extensions [0xBE, 0xDD, 0, 3, 0] = Inr [0xBE, 0xDD, 0, 3, 0]"
proof -
  have m: "has_marker [0xBE, 0xDE, 0, 3, 0, 0x10, 7, 8, 0, 9, 1, 2]"
    by code_simp
  have e: "drop 1 (skip_elements (unat ([0xBE, 0xDE, 0, 3, 0, 0x10, 7, 8, 0, 9, 1, 2 :: byte] ! 2) * 256
           + unat ([0xBE, 0xDE, 0, 3, 0, 0x10, 7, 8, 0, 9, 1, 2 :: byte] ! 3))
        (drop 4 [0xBE, 0xDE, 0, 3, 0, 0x10, 7, 8, 0, 9, 1, 2])) = [1, 2 :: byte]"
    by code_simp
  have n: "\<not> has_marker [0xBE, 0xDD, 0, 3, 0]"
    by code_simp
  show ?thesis
    using strip_extensions_high_nibble [of "[0xBE, 0xDE, 0, 3, 0, 0x10, 7, 8, 0, 9, 1, 2]"]
      strip_extensions_high_nibble [of "[0xBE, 0xDD, 0, 3, 0]"]
    by (simp only: m e n if_True if_False simp_thms)
qed

text \<open>
  C2. In the one-byte header-extension format that the code's comment names, the leading
  byte of an element carries the identifier in its high four bits and the length of the
  data, minus one, in its low four bits, as the specification says. The code shifts the
  byte right by four before it masks it, so it takes the identifier for the length. On
  an element with identifier 5 and two bytes of data (leading byte 0x51) it skips six
  bytes after the leading byte instead of two, and the frame F1 .. F6 that follows the
  utility byte loses its first four bytes. Neither reading of the specification's rule
  gives what the code returns.
\<close>

theorem strip_extensions_reads_id_nibble:
  "low_nibble 0x51 = 1 \<and> nibble 0x51 = 5 \<and>
   strip_extensions
     [0xBE, 0xDE, 0, 1, 0x51, 0xA1, 0xA2, 0, 0xF1, 0xF2, 0xF3, 0xF4, 0xF5, 0xF6]
     = Inr [0xF5, 0xF6] \<and>
   spec_frame 1
     [0xBE, 0xDE, 0, 1, 0x51, 0xA1, 0xA2, 0, 0xF1, 0xF2, 0xF3, 0xF4, 0xF5, 0xF6]
     = [0xF1, 0xF2, 0xF3, 0xF4, 0xF5, 0xF6] \<and>
   strip_extensions
     [0xBE, 0xDE, 0, 1, 0x51, 0xA1, 0xA2, 0, 0xF1, 0xF2, 0xF3, 0xF4, 0xF5, 0xF6]
     \<noteq> Inr (spec_frame 1
           [0xBE, 0xDE, 0, 1, 0x51, 0xA1, 0xA2, 0, 0xF1, 0xF2, 0xF3, 0xF4, 0xF5, 0xF6]) \<and>
   strip_extensions
     [0xBE, 0xDE, 0, 1, 0x51, 0xA1, 0xA2, 0, 0xF1, 0xF2, 0xF3, 0xF4, 0xF5, 0xF6]
     \<noteq> Inr (spec_frame 0
           [0xBE, 0xDE, 0, 1, 0x51, 0xA1, 0xA2, 0, 0xF1, 0xF2, 0xF3, 0xF4, 0xF5, 0xF6])"
  by code_simp

subsection \<open>Opening streams\<close>

text \<open>
  C5. \<^verbatim>\<open>createOpusStream\<close> and \<^verbatim>\<open>createPCMStream\<close> throw when the user does not
  resolve and when the table of that kind already has a stream for the identity; a throw
  happens before any write, so the state is the one the call was made in. Otherwise the
  stream returned is a new, open, empty stream at a fresh address, it is registered for
  the identity, every other entry and the table of the other kind are as before, and a
  table with one entry per identity still has one entry per identity.
\<close>

theorem create_stream_contract:
  "(resolveUser c user = None \<longrightarrow>
      createOpusStream c user r = Inl CouldntResolveUser \<and>
      createPCMStream c user r = Inl CouldntResolveUser) \<and>
   (\<forall>uid. resolveUser c user = Some uid \<longrightarrow>
      (map_of (opusStreams r) uid \<noteq> None \<longrightarrow> createOpusStream c user r = Inl ExistingStream) \<and>
      (map_of (pcmStreams r) uid \<noteq> None \<longrightarrow> createPCMStream c user r = Inl ExistingStream) \<and>
      (map_of (opusStreams r) uid = None \<longrightarrow>
         (\<exists>r'. createOpusStream c user r = Inr (length (heap r), r') \<and>
            heap r' = heap r @ [new_Readable] \<and>
            map_of (opusStreams r') = (map_of (opusStreams r))(uid \<mapsto> length (heap r)) \<and>
            (distinct (map fst (opusStreams r)) \<longrightarrow> distinct (map fst (opusStreams r'))) \<and>
            pcmStreams r' = pcmStreams r)) \<and>
      (map_of (pcmStreams r) uid = None \<longrightarrow>
         (\<exists>r'. createPCMStream c user r = Inr (length (heap r), r') \<and>
            heap r' = heap r @ [new_Readable] \<and>
            map_of (pcmStreams r') = (map_of (pcmStreams r))(uid \<mapsto> length (heap r)) \<and>
            (distinct (map fst (pcmStreams r)) \<longrightarrow> distinct (map fst (pcmStreams r'))) \<and>
            opusStreams r' = opusStreams r)))"
  by (auto simp: createOpusStream_def createPCMStream_def Let_def update_conv' distinct_update
      split: option.splits)

theorem create_stream_contract_witness:
  "resolveUser alice_session ''bob'' = None \<and>
   createOpusStream alice_session ''bob'' VoiceReceiver_new = Inl CouldntResolveUser \<and>
   createPCMStream alice_session ''bob'' VoiceReceiver_new = Inl CouldntResolveUser \<and>
   resolveUser alice_session ''alice'' = Some ''alice'' \<and>
   map_of (opusStreams VoiceReceiver_new) ''alice'' = None \<and>
   (\<exists>r'. createOpusStream alice_session ''alice'' VoiceReceiver_new = Inr (0, r') \<and>
      heap r' = [new_Readable] \<and> map_of (opusStreams r') ''alice'' = Some 0 \<and>
      createOpusStream alice_session ''alice'' r' = Inl ExistingStream \<and>
      (\<exists>r''. createPCMStream alice_session ''alice'' r' = Inr (1, r'') \<and>
         map_of (pcmStreams r'') ''alice'' = Some 1 \<and>
         createPCMStream alice_session ''alice'' r'' = Inl ExistingStream))"
proof -
  have b: "resolveUser alice_session ''bob'' = None"
    and a: "resolveUser alice_session ''alice'' = Some ''alice''"
    by (simp_all add: alice_session_def)
  have e: "map_of (opusStreams VoiceReceiver_new) ''alice'' = None"
    "map_of (pcmStreams VoiceReceiver_new) ''alice'' = None"
    "heap VoiceReceiver_new = []"
    "pcmStreams VoiceReceiver_new = []"
    by (simp_all add: VoiceReceiver_new_def)
  from create_stream_contract [of alice_session "''alice''" VoiceReceiver_new] a e
  obtain r' where r': "createOpusStream alice_session ''alice'' VoiceReceiver_new = Inr (0, r')"
    "heap r' = [new_Readable]" "map_of (opusStreams r') ''alice'' = Some 0"
    "pcmStreams r' = []"
    by auto
  from create_stream_contract [of alice_session "''alice''" r'] a r'
  have x: "createOpusStream alice_session ''alice'' r' = Inl ExistingStream"
    by simp
  from create_stream_contract [of alice_session "''alice''" r'] a r'
  obtain r'' where r'': "createPCMStream alice_session ''alice'' r' = Inr (1, r'')"
    "map_of (pcmStreams r'') ''alice'' = Some 1"
    by auto
  from create_stream_contract [of alice_session "''alice''" r''] a r''
  have y: "createPCMStream alice_session ''alice'' r'' = Inl ExistingStream"
    by simp
  show ?thesis
    using create_stream_contract [of alice_session "''bob''" VoiceReceiver_new] a b e r' x r'' y
    by auto
qed

subsection \<open>Fan-out and decoding\<close>

lemma handlePacket_decrypted:
  assumes "select_nonce (encryptionMode c) msg (nonce r) = Inr (n, e)"
    and "secretbox_open c (slice_buf msg 12 e) n (secretKey c) = Some data"
    and "strip_extensions data = Inr frame"
  shows "handlePacket c msg uid r = (None, fan_out c frame uid (r\<lparr>nonce := n\<rparr>))"
  using assms by (simp add: handlePacket_def)

lemma fan_out_skip:
  assumes "\<not> (0 < pcmListeners r \<or> pcmStreams r \<noteq> [])"
  shows "engine (fan_out c frame uid r) = engine r"
    and "opusEncoders (fan_out c frame uid r) = opusEncoders r"
    and "emitted (fan_out c frame uid r) = emitted r @ [OpusEvent uid frame]"
  using assms by (simp_all add: fan_out_def emit_def Let_def split: option.splits)

lemma fan_out_decode:
  assumes "0 < pcmListeners r \<or> pcmStreams r \<noteq> []"
  shows "map_of (opusEncoders r) uid = Some d \<Longrightarrow>
           engine (fan_out c frame uid r) = engine r \<and>
           opusEncoders (fan_out c frame uid r) = opusEncoders r \<and>
           emitted (fan_out c frame uid r) = emitted r @
             [OpusEvent uid frame,
              case decode c d (engine r ! d) frame of
                Inl m \<Rightarrow> Warn ''decode'' (''Failed to decode packet voice to PCM because: '' @ m)
              | Inr pcm \<Rightarrow> PcmEvent uid pcm]"
    and "map_of (opusEncoders r) uid = None \<Longrightarrow>
           engine (fan_out c frame uid r) = engine r @ [False] \<and>
           opusEncoders (fan_out c frame uid r) = AList.update uid (length (engine r)) (opusEncoders r) \<and>
           emitted (fan_out c frame uid r) = emitted r @
             [OpusEvent uid frame,
              case decode c (length (engine r)) False frame of
                Inl m \<Rightarrow> Warn ''decode'' (''Failed to decode packet voice to PCM because: '' @ m)
              | Inr pcm \<Rightarrow> PcmEvent uid pcm]"
  using assms
  by (auto simp add: fan_out_def emit_def Let_def split: option.splits sum.splits)

lemma fan_out_heap:
  "heap (fan_out c frame uid r) =
     (let h = (case map_of (opusStreams r) uid of Some a \<Rightarrow> push a (Data frame) (heap r) | None \<Rightarrow> heap r)
      in if 0 < pcmListeners r \<or> pcmStreams r \<noteq> [] then
           (case decode c (case map_of (opusEncoders r) uid of Some d \<Rightarrow> d | None \<Rightarrow> length (engine r))
                   (case map_of (opusEncoders r) uid of Some d \<Rightarrow> engine r ! d | None \<Rightarrow> False) frame of
              Inl m \<Rightarrow> h
            | Inr pcm \<Rightarrow> (case map_of (pcmStreams r) uid of Some a \<Rightarrow> push a (Data pcm) h | None \<Rightarrow> h))
         else h)"
  by (auto simp add: fan_out_def emit_def Let_def split: option.splits sum.splits)


text \<open>
  C4 (as the code has it). For a datagram that decrypts, the frame is decoded exactly
  when there is a \<^verbatim>\<open>pcm\<close> listener or the table of decoded-audio streams is not
  empty, whoever the streams belong to. Then the speaker's decoder is the one in the
  table, or a fresh one fetched from the engine and stored; a decode error emits the
  \<^verbatim>\<open>decode\<close> warning and nothing else, and a success pushes to the speaker's own
  decoded-audio stream, if any, and emits the \<^verbatim>\<open>pcm\<close> event. Otherwise no decoder is
  fetched, the table of decoders is as before, and the \<^verbatim>\<open>opus\<close> event is the only
  event.
\<close>

theorem decode_guard:
  assumes "select_nonce (encryptionMode c) msg (nonce r) = Inr (n, e)"
    and "secretbox_open c (slice_buf msg 12 e) n (secretKey c) = Some data"
    and "strip_extensions data = Inr frame"
  shows
    "let r' = snd (handlePacket c msg uid r);
         d = (case map_of (opusEncoders r) uid of Some d \<Rightarrow> d | None \<Rightarrow> length (engine r));
         gone = (case map_of (opusEncoders r) uid of Some d \<Rightarrow> engine r ! d | None \<Rightarrow> False);
         h = (case map_of (opusStreams r) uid of
                Some a \<Rightarrow> push a (Data frame) (heap r) | None \<Rightarrow> heap r)
     in if 0 < pcmListeners r \<or> pcmStreams r \<noteq> [] then
          map_of (opusEncoders r') uid = Some d \<and>
          engine r' = (case map_of (opusEncoders r) uid of
                         Some d \<Rightarrow> engine r | None \<Rightarrow> engine r @ [False]) \<and>
          (case decode c d gone frame of
             Inl m \<Rightarrow>
               emitted r' = emitted r @ [OpusEvent uid frame,
                 Warn ''decode'' (''Failed to decode packet voice to PCM because: '' @ m)] \<and>
               heap r' = h
           | Inr pcm \<Rightarrow>
               emitted r' = emitted r @ [OpusEvent uid frame, PcmEvent uid pcm] \<and>
               heap r' = (case map_of (pcmStreams r) uid of
                            Some a \<Rightarrow> push a (Data pcm) h | None \<Rightarrow> h))
        else engine r' = engine r \<and> opusEncoders r' = opusEncoders r \<and>
             emitted r' = emitted r @ [OpusEvent uid frame] \<and> heap r' = h"
proof -
  let ?r = "r\<lparr>nonce := n\<rparr>"
  have hp: "snd (handlePacket c msg uid r) = fan_out c frame uid ?r"
    using handlePacket_decrypted [OF assms] by simp
  show ?thesis
  proof (cases "0 < pcmListeners r \<or> pcmStreams r \<noteq> []")
    case False
    then have "\<not> (0 < pcmListeners ?r \<or> pcmStreams ?r \<noteq> [])" by simp
    from fan_out_skip [OF this, of c frame uid] fan_out_heap [of c frame uid ?r] False
    show ?thesis
      by (simp add: hp Let_def cong: option.case_cong)
  next
    case True
    then have g: "0 < pcmListeners ?r \<or> pcmStreams ?r \<noteq> []" by simp
    show ?thesis
    proof (cases "map_of (opusEncoders r) uid")
      case None
      with fan_out_decode(2) [OF g, of uid c frame] fan_out_heap [of c frame uid ?r] True
      show ?thesis
        by (auto simp add: hp Let_def update_conv' split: sum.splits cong: option.case_cong)
    next
      case (Some d)
      with fan_out_decode(1) [OF g, of uid d c frame] fan_out_heap [of c frame uid ?r] True
      show ?thesis
        by (auto simp add: hp Let_def split: sum.splits cong: option.case_cong)
    qed
  qed
qed


theorem decode_guard_witness:
  "select_nonce (encryptionMode alice_session) alice_lite_datagram (nonce bob_listening)
      = Inr ([9, 9, 9, 9] @ replicate 20 0, Some 15) \<and>
   secretbox_open alice_session (slice_buf alice_lite_datagram 12 (Some 15))
       ([9, 9, 9, 9] @ replicate 20 0) (secretKey alice_session) = Some [1, 2, 3] \<and>
   strip_extensions [1, 2, 3] = Inr [1, 2, 3] \<and>
   pcmStreams bob_listening \<noteq> [] \<and>
   map_of (opusEncoders (snd (handlePacket alice_session alice_lite_datagram ''alice'' bob_listening)))
     ''alice'' = Some 0 \<and>
   emitted (snd (handlePacket alice_session alice_lite_datagram ''alice'' bob_listening)) =
     [OpusEvent ''alice'' [1, 2, 3], PcmEvent ''alice'' [1, 2, 3]]"
proof -
  have 1: "select_nonce (encryptionMode alice_session) alice_lite_datagram (nonce bob_listening)
      = Inr ([9, 9, 9, 9] @ replicate 20 0, Some 15)"
    by code_simp
  have 2: "secretbox_open alice_session (slice_buf alice_lite_datagram 12 (Some 15))
       ([9, 9, 9, 9] @ replicate 20 0) (secretKey alice_session) = Some [1, 2, 3]"
    by code_simp
  have 3: "strip_extensions [1, 2, 3] = Inr [1, 2, 3]"
    by code_simp
  have 4: "pcmStreams bob_listening = [(''bob'', 0)]" "pcmListeners bob_listening = 0"
    "opusEncoders bob_listening = []" "engine bob_listening = []" "emitted bob_listening = []"
    by (simp_all add: bob_listening_def VoiceReceiver_new_def)
  have 5: "decode alice_session 0 False [1, 2, 3] = Inr [1, 2, 3]"
    by (simp add: alice_session_def)
  from decode_guard [OF 1 2 3, of "''alice''"]
  have c: "map_of (opusEncoders (snd (handlePacket alice_session alice_lite_datagram ''alice'' bob_listening)))
     ''alice'' = Some 0 \<and>
   emitted (snd (handlePacket alice_session alice_lite_datagram ''alice'' bob_listening)) =
     [OpusEvent ''alice'' [1, 2, 3], PcmEvent ''alice'' [1, 2, 3]]"
    by (simp add: 4 5 Let_def)
  show ?thesis
    by (intro conjI 1 2 3) (use c 4 in simp_all)
qed


text \<open>
  C4 (as the specification has it) fails: with no \<^verbatim>\<open>pcm\<close> listener and a
  decoded-audio stream open for bob only, a datagram of alice, who has no stream, is
  decoded with a decoder fetched for her.
\<close>

theorem decode_guard_counterexample:
  "pcmListeners bob_listening = 0 \<and>
   map_of (pcmStreams bob_listening) ''alice'' = None \<and>
   engine bob_listening = [] \<and>
   engine (snd (handlePacket alice_session alice_lite_datagram ''alice'' bob_listening)) = [False] \<and>
   emitted (snd (handlePacket alice_session alice_lite_datagram ''alice'' bob_listening)) =
     [OpusEvent ''alice'' [1, 2, 3], PcmEvent ''alice'' [1, 2, 3]]"
  by code_simp

subsection \<open>Stop of speaking\<close>

lemma delete_absent: "map_of al k = None \<Longrightarrow> AList.delete k al = al"
  by (simp add: delete_id map_of_eq_None_iff)

lemma stoppedSpeaking_fields:
  "opusEncoders (stoppedSpeaking uid r) = opusEncoders r"
  "nonce (stoppedSpeaking uid r) = nonce r"
  "pcmListeners (stoppedSpeaking uid r) = pcmListeners r"
  "emitted (stoppedSpeaking uid r) = emitted r"
  "opusStreams (stoppedSpeaking uid r) = AList.delete uid (opusStreams r)"
  "pcmStreams (stoppedSpeaking uid r) = AList.delete uid (pcmStreams r)"
  "engine (stoppedSpeaking uid r) =
     (case map_of (opusEncoders r) uid of
        Some d \<Rightarrow> destroy_decoder d (engine r) | None \<Rightarrow> engine r)"
  by (simp_all add: stoppedSpeaking_def Let_def delete_absent split: option.splits)

text \<open>
  C9. \<^verbatim>\<open>stoppedSpeaking\<close> leaves the table of decoders as it is, removes the identity
  from both stream tables, and destroys the identity's decoder, if it has one, in the
  engine. When the next datagram of that identity decrypts and is to be decoded, no
  decoder is fetched: the table and the engine are as \<^verbatim>\<open>stoppedSpeaking\<close> left them
  and \<^verbatim>\<open>decode\<close> is called on the destroyed decoder.
\<close>

theorem stoppedSpeaking_keeps_decoder:
  "opusEncoders (stoppedSpeaking uid r) = opusEncoders r \<and>
   map_of (opusStreams (stoppedSpeaking uid r)) = (map_of (opusStreams r))(uid := None) \<and>
   map_of (pcmStreams (stoppedSpeaking uid r)) = (map_of (pcmStreams r))(uid := None) \<and>
   engine (stoppedSpeaking uid r) =
     (case map_of (opusEncoders r) uid of
        Some d \<Rightarrow> destroy_decoder d (engine r) | None \<Rightarrow> engine r) \<and>
   (\<forall>d msg n e data frame.
      map_of (opusEncoders r) uid = Some d \<and> d < length (engine r) \<and>
      (0 < pcmListeners r \<or> pcmStreams (stoppedSpeaking uid r) \<noteq> []) \<and>
      select_nonce (encryptionMode c) msg (nonce r) = Inr (n, e) \<and>
      secretbox_open c (slice_buf msg 12 e) n (secretKey c) = Some data \<and>
      strip_extensions data = Inr frame \<longrightarrow>
      (let r' = snd (handlePacket c msg uid (stoppedSpeaking uid r))
       in engine r' = (engine r)[d := True] \<and>
          opusEncoders r' = opusEncoders r \<and>
          emitted r' = emitted r @
            [OpusEvent uid frame,
             case decode c d True frame of
               Inl m \<Rightarrow> Warn ''decode'' (''Failed to decode packet voice to PCM because: '' @ m)
             | Inr pcm \<Rightarrow> PcmEvent uid pcm]))"
proof (intro conjI allI impI)
  fix d msg n e data frame
  assume a: "map_of (opusEncoders r) uid = Some d \<and> d < length (engine r) \<and>
      (0 < pcmListeners r \<or> pcmStreams (stoppedSpeaking uid r) \<noteq> []) \<and>
      select_nonce (encryptionMode c) msg (nonce r) = Inr (n, e) \<and>
      secretbox_open c (slice_buf msg 12 e) n (secretKey c) = Some data \<and>
      strip_extensions data = Inr frame"
  let ?s = "stoppedSpeaking uid r"
  let ?r = "?s\<lparr>nonce := n\<rparr>"
  have hp: "snd (handlePacket c msg uid ?s) = fan_out c frame uid ?r"
    using a handlePacket_decrypted [of c msg ?s n e data frame uid]
    by (simp add: stoppedSpeaking_fields)
  have g: "0 < pcmListeners ?r \<or> pcmStreams ?r \<noteq> []"
    using a by (simp add: stoppedSpeaking_fields)
  have m: "map_of (opusEncoders ?r) uid = Some d"
    using a by (simp add: stoppedSpeaking_fields)
  have en: "engine ?r = (engine r)[d := True]"
    using a by (simp add: stoppedSpeaking_fields destroy_decoder_def)
  from fan_out_decode(1) [OF g m, of c frame] a
  show "let r' = snd (handlePacket c msg uid ?s)
       in engine r' = (engine r)[d := True] \<and>
          opusEncoders r' = opusEncoders r \<and>
          emitted r' = emitted r @
            [OpusEvent uid frame,
             case decode c d True frame of
               Inl m \<Rightarrow> Warn ''decode'' (''Failed to decode packet voice to PCM because: '' @ m)
             | Inr pcm \<Rightarrow> PcmEvent uid pcm]"
    by (simp add: hp en Let_def stoppedSpeaking_fields)
qed (simp_all add: stoppedSpeaking_fields delete_conv')


theorem stoppedSpeaking_keeps_decoder_witness:
  "map_of (opusEncoders alice_decoding) ''alice'' = Some 0 \<and>
   0 < pcmListeners alice_decoding \<and>
   pcmStreams (stoppedSpeaking ''alice'' alice_decoding) = [] \<and>
   opusEncoders (stoppedSpeaking ''alice'' alice_decoding) = [(''alice'', 0)] \<and>
   engine (stoppedSpeaking ''alice'' alice_decoding) = [True] \<and>
   engine (snd (handlePacket alice_session alice_lite_datagram ''alice''
                  (stoppedSpeaking ''alice'' alice_decoding))) = [True] \<and>
   opusEncoders (snd (handlePacket alice_session alice_lite_datagram ''alice''
                  (stoppedSpeaking ''alice'' alice_decoding))) = [(''alice'', 0)] \<and>
   emitted (snd (handlePacket alice_session alice_lite_datagram ''alice''
                  (stoppedSpeaking ''alice'' alice_decoding))) =
     [OpusEvent ''alice'' [1, 2, 3],
      Warn ''decode'' ''Failed to decode packet voice to PCM because: destroyed'']"
proof -
  have f: "opusEncoders alice_decoding = [(''alice'', 0)]" "engine alice_decoding = [False]"
    "pcmListeners alice_decoding = 1" "emitted alice_decoding = []"
    "nonce alice_decoding = replicate 24 0" "pcmStreams alice_decoding = [(''alice'', 0)]"
    by (simp_all add: alice_decoding_def VoiceReceiver_new_def)
  have 1: "select_nonce (encryptionMode alice_session) alice_lite_datagram (nonce alice_decoding)
      = Inr ([9, 9, 9, 9] @ replicate 20 0, Some 15)"
    by code_simp
  have 2: "secretbox_open alice_session (slice_buf alice_lite_datagram 12 (Some 15))
       ([9, 9, 9, 9] @ replicate 20 0) (secretKey alice_session) = Some [1, 2, 3]"
    by code_simp
  have 3: "strip_extensions [1, 2, 3] = Inr [1, 2, 3]"
    by code_simp
  have 4: "decode alice_session 0 True [1, 2, 3] = Inl ''destroyed''"
    by (simp add: alice_session_def)
  note k = stoppedSpeaking_keeps_decoder [of "''alice''" alice_decoding alice_session]
  have p: "map_of (opusEncoders alice_decoding) ''alice'' = Some 0 \<and> 0 < length (engine alice_decoding) \<and>
      (0 < pcmListeners alice_decoding \<or> pcmStreams (stoppedSpeaking ''alice'' alice_decoding) \<noteq> []) \<and>
      select_nonce (encryptionMode alice_session) alice_lite_datagram (nonce alice_decoding)
        = Inr ([9, 9, 9, 9] @ replicate 20 0, Some 15) \<and>
      secretbox_open alice_session (slice_buf alice_lite_datagram 12 (Some 15))
        ([9, 9, 9, 9] @ replicate 20 0) (secretKey alice_session) = Some [1, 2, 3] \<and>
      strip_extensions [1, 2, 3] = Inr [1, 2, 3]"
    by (intro conjI 1 2 3) (simp_all add: f)
  from k [THEN conjunct2, THEN conjunct2, THEN conjunct2, THEN conjunct2, rule_format, OF p]
  have later: "engine (snd (handlePacket alice_session alice_lite_datagram ''alice''
                  (stoppedSpeaking ''alice'' alice_decoding))) = [True] \<and>
   opusEncoders (snd (handlePacket alice_session alice_lite_datagram ''alice''
                  (stoppedSpeaking ''alice'' alice_decoding))) = [(''alice'', 0)] \<and>
   emitted (snd (handlePacket alice_session alice_lite_datagram ''alice''
                  (stoppedSpeaking ''alice'' alice_decoding))) =
     [OpusEvent ''alice'' [1, 2, 3],
      Warn ''decode'' ''Failed to decode packet voice to PCM because: destroyed'']"
    by (simp add: Let_def f 4)
  have s: "pcmStreams (stoppedSpeaking ''alice'' alice_decoding) = []"
    by (simp add: stoppedSpeaking_fields f)
  from k have e: "opusEncoders (stoppedSpeaking ''alice'' alice_decoding) = [(''alice'', 0)]"
    "engine (stoppedSpeaking ''alice'' alice_decoding) = [True]"
    by (simp_all add: f destroy_decoder_def)
  show ?thesis
    using later s e by (simp add: f)
qed

subsection \<open>Destroying the receiver\<close>

lemma push_length: "length (push a c h) = length h"
  by (simp add: push_def)

lemma push_nth:
  "b < length h \<Longrightarrow>
   push a c h ! b = (if a = b then (h ! b)\<lparr>pushed := pushed (h ! b) @ [c]\<rparr> else h ! b)"
  by (simp add: push_def)

lemma end_streams_table:
  "fst (end_streams rest tab h) = filter (\<lambda>(k, v). k \<notin> fst ` set rest) tab"
proof (induction rest arbitrary: tab h)
  case Nil
  show ?case by simp
next
  case (Cons x rest)
  obtain uid stream where x: "x = (uid, stream)" by (cases x)
  show ?case
    unfolding x by (auto simp add: Cons.IH AList.delete_eq intro: filter_cong)
qed

lemma end_streams_all: "fst (end_streams tab tab h) = []"
  by (auto simp add: end_streams_table filter_empty_conv intro: rev_image_eqI)

lemma end_streams_length: "length (snd (end_streams rest tab h)) = length h"
  by (induction rest arbitrary: tab h) (auto simp: push_length)

lemma end_streams_pushed:
  "a < length h \<Longrightarrow>
   snd (end_streams rest tab h) ! a =
     (h ! a)\<lparr>pushed := pushed (h ! a) @ replicate (count_list (map snd rest) a) EndOfStream\<rparr>"
proof (induction rest arbitrary: tab h)
  case Nil
  then show ?case by simp
next
  case (Cons x rest)
  obtain uid stream where x: "x = (uid, stream)" by (cases x)
  from Cons.prems have "a < length (push stream EndOfStream h)"
    by (simp add: push_length)
  from Cons.IH [OF this] Cons.prems show ?case
    unfolding x by (simp add: push_nth replicate_append_same)
qed

lemma destroy_encoders_table:
  "fst (destroy_encoders rest tab g) = filter (\<lambda>(k, v). k \<notin> fst ` set rest) tab"
proof (induction rest arbitrary: tab g)
  case Nil
  show ?case by simp
next
  case (Cons x rest)
  obtain uid d where x: "x = (uid, d)" by (cases x)
  show ?case
    unfolding x by (auto simp add: Cons.IH AList.delete_eq intro: filter_cong)
qed

lemma destroy_encoders_all: "fst (destroy_encoders tab tab g) = []"
  by (auto simp add: destroy_encoders_table filter_empty_conv intro: rev_image_eqI)

lemma destroy_decoder_length: "length (destroy_decoder d g) = length g"
  by (simp add: destroy_decoder_def)

lemma destroy_encoders_length: "length (snd (destroy_encoders rest tab g)) = length g"
  by (induction rest arbitrary: tab g) (auto simp: destroy_decoder_length)

lemma destroy_encoders_flag:
  "d < length g \<Longrightarrow> snd (destroy_encoders rest tab g) ! d \<longleftrightarrow> g ! d \<or> d \<in> snd ` set rest"
proof (induction rest arbitrary: tab g)
  case Nil
  then show ?case by simp
next
  case (Cons x rest)
  obtain uid e where x: "x = (uid, e)" by (cases x)
  from Cons.prems have "d < length (destroy_decoder e g)"
    by (simp add: destroy_decoder_length)
  from Cons.IH [OF this] Cons.prems show ?case
    unfolding x by (auto simp add: destroy_decoder_def nth_list_update)
qed


lemma count_list_distinct:
  "distinct xs \<Longrightarrow> count_list xs a = (if a \<in> set xs then 1 else 0)"
  by (induction xs) auto

lemma destroy_fields:
  "pcmStreams (destroy r) = []"
  "opusStreams (destroy r) = []"
  "opusEncoders (destroy r) = []"
  "destroyed (destroy r)"
  "listening (destroy r) = listening r - 1"
  "speakingTimeouts (destroy r) = speakingTimeouts r"
  "disconnectTimer (destroy r) = disconnectTimer r"
  "emitted (destroy r) = emitted r"
  "notified (destroy r) = notified r"
  "pcmListeners (destroy r) = pcmListeners r"
  "nonce (destroy r) = nonce r"
  "heap (destroy r) =
     snd (end_streams (opusStreams r) (opusStreams r)
            (snd (end_streams (pcmStreams r) (pcmStreams r) (heap r))))"
  "engine (destroy r) = snd (destroy_encoders (opusEncoders r) (opusEncoders r) (engine r))"
  using end_streams_all [of "pcmStreams r" "heap r"]
    end_streams_all [of "opusStreams r" "snd (end_streams (pcmStreams r) (pcmStreams r) (heap r))"]
    destroy_encoders_all [of "opusEncoders r" "engine r"]
  by (simp_all add: destroy_def Let_def split_beta)

text \<open>
  C8 (as the code has it). \<^verbatim>\<open>destroy\<close> removes one registration of the listener,
  empties the two stream tables and the table of decoders, pushes the end of stream to
  every stream once for each entry that held it and changes no stream otherwise (so
  exactly once to every registered stream when no stream is registered twice), destroys
  exactly the decoders the table held, and marks the receiver destroyed. It leaves the
  table of speaking timers and the liveness timer as they are. On a receiver whose
  listener is registered at most once, a second \<^verbatim>\<open>destroy\<close> changes nothing.
\<close>

theorem destroy_clears_tables:
  "pcmStreams (destroy r) = [] \<and> opusStreams (destroy r) = [] \<and> opusEncoders (destroy r) = [] \<and>
   destroyed (destroy r) \<and> listening (destroy r) = listening r - 1 \<and>
   length (heap (destroy r)) = length (heap r) \<and>
   (\<forall>a < length (heap r).
      heap (destroy r) ! a =
        (heap r ! a)\<lparr>pushed := pushed (heap r ! a) @
           replicate (count_list (map snd (pcmStreams r @ opusStreams r)) a) EndOfStream\<rparr>) \<and>
   (distinct (map snd (pcmStreams r @ opusStreams r)) \<longrightarrow>
      (\<forall>a < length (heap r).
         pushed (heap (destroy r) ! a) =
           pushed (heap r ! a) @
             (if a \<in> snd ` set (pcmStreams r @ opusStreams r) then [EndOfStream] else []))) \<and>
   length (engine (destroy r)) = length (engine r) \<and>
   (\<forall>d < length (engine r).
      engine (destroy r) ! d \<longleftrightarrow> engine r ! d \<or> d \<in> snd ` set (opusEncoders r)) \<and>
   speakingTimeouts (destroy r) = speakingTimeouts r \<and>
   disconnectTimer (destroy r) = disconnectTimer r \<and>
   (listening r \<le> 1 \<longrightarrow> destroy (destroy r) = destroy r)"
proof -
  have h: "heap (destroy r) ! a =
        (heap r ! a)\<lparr>pushed := pushed (heap r ! a) @
           replicate (count_list (map snd (pcmStreams r @ opusStreams r)) a) EndOfStream\<rparr>"
    if "a < length (heap r)" for a
  proof -
    let ?h = "snd (end_streams (pcmStreams r) (pcmStreams r) (heap r))"
    have "a < length ?h" using that by (simp add: end_streams_length)
    from end_streams_pushed [OF this, of "opusStreams r" "opusStreams r"]
      end_streams_pushed [OF that, of "pcmStreams r" "pcmStreams r"]
    show ?thesis
      by (simp add: destroy_fields replicate_add)
  qed
  have once: "pushed (heap (destroy r) ! a) =
           pushed (heap r ! a) @
             (if a \<in> snd ` set (pcmStreams r @ opusStreams r) then [EndOfStream] else [])"
    if "distinct (map snd (pcmStreams r @ opusStreams r))" and "a < length (heap r)" for a
    using h [OF that(2)] count_list_distinct [OF that(1), of a]
    by (simp del: map_append set_append)
  have i: "destroy (destroy r) = destroy r" if "listening r \<le> 1"
    using that by (simp add: destroy_def [of "destroy r"] destroy_fields)
  have rest: "pcmStreams (destroy r) = [] \<and> opusStreams (destroy r) = [] \<and>
      opusEncoders (destroy r) = [] \<and> destroyed (destroy r) \<and>
      listening (destroy r) = listening r - 1 \<and>
      length (heap (destroy r)) = length (heap r) \<and>
      length (engine (destroy r)) = length (engine r) \<and>
      (\<forall>d < length (engine r).
         engine (destroy r) ! d \<longleftrightarrow> engine r ! d \<or> d \<in> snd ` set (opusEncoders r)) \<and>
      speakingTimeouts (destroy r) = speakingTimeouts r \<and>
      disconnectTimer (destroy r) = disconnectTimer r"
    by (simp add: destroy_fields(1-7) destroy_fields(12,13) end_streams_length
        destroy_encoders_length destroy_encoders_flag)
  show ?thesis
    using h once i rest by blast
qed


theorem destroy_clears_tables_witness:
  "listening alice_decoding \<le> 1 \<and>
   destroy (destroy alice_decoding) = destroy alice_decoding \<and>
   pcmStreams (destroy alice_decoding) = [] \<and>
   heap (destroy alice_decoding) ! 0 = \<lparr>sopen = True, pushed = [EndOfStream]\<rparr> \<and>
   engine (destroy alice_decoding) ! 0 \<and>
   listening (destroy alice_decoding) = 0"
proof -
  have f: "listening alice_decoding = 1" "heap alice_decoding = [new_Readable]"
    "engine alice_decoding = [False]" "pcmStreams alice_decoding = [(''alice'', 0)]"
    "opusStreams alice_decoding = []" "opusEncoders alice_decoding = [(''alice'', 0)]"
    by (simp_all add: alice_decoding_def VoiceReceiver_new_def)
  from destroy_clears_tables [of alice_decoding] show ?thesis
    by (simp add: f new_Readable_def)
qed

text \<open>
  C8 (as the specification has it) fails: after one datagram of alice at time 0 the
  receiver holds her speaking timer and the liveness timer, \<^verbatim>\<open>destroy\<close> releases
  neither, and the speaking timer still fires at time 70 on the destroyed receiver.
\<close>

theorem destroy_keeps_timers_counterexample:
  "speakingTimeouts (destroy alice_speaking) =
     [(7, ''alice'', \<lparr>armed = True, delay = 70, deadline = 70\<rparr>)] \<and>
   disconnectTimer (destroy alice_speaking) = Some \<lparr>armed = True, delay = 3000, deadline = 3000\<rparr> \<and>
   notified (destroy alice_speaking) = [Speaking ''alice'' 7 True] \<and>
   notified (run_timers alice_session 70 (destroy alice_speaking)) =
     [Speaking ''alice'' 7 True, Speaking ''alice'' 7 False]"
  by code_simp

subsection \<open>Nonce and ciphertext\<close>

text \<open>
  On a 24-byte nonce buffer each mode writes the bytes the rule names and takes the
  ciphertext the rule names; the bytes of the buffer that the mode does not write keep
  the value an earlier call left there.
\<close>

lemma select_nonce_lite:
  assumes "length nonce0 = 24" and "4 \<le> length msg"
  shows "select_nonce ''xsalsa20_poly1305_lite'' msg nonce0 =
           Inr (drop (length msg - 4) msg @ drop 4 nonce0, Some (int (length msg) - 4))"
    and "slice_buf msg 12 (Some (int (length msg) - 4)) = drop 12 (take (length msg - 4) msg)"
  using assms by (simp_all add: select_nonce_def copy_def slice_buf_def Let_def nat_diff_distrib')

lemma select_nonce_suffix:
  assumes "length nonce0 = 24" and "24 \<le> length msg"
  shows "select_nonce ''xsalsa20_poly1305_suffix'' msg nonce0 =
           Inr (drop (length msg - 24) msg, Some (int (length msg) - 24))"
    and "slice_buf msg 12 (Some (int (length msg) - 24)) = drop 12 (take (length msg - 24) msg)"
  using assms by (simp_all add: select_nonce_def copy_def slice_buf_def Let_def nat_diff_distrib')

lemma select_nonce_legacy:
  assumes "length nonce0 = 24" and "12 \<le> length msg"
    and "mode \<noteq> ''xsalsa20_poly1305_lite''" and "mode \<noteq> ''xsalsa20_poly1305_suffix''"
  shows "select_nonce mode msg nonce0 = Inr (take 12 msg @ drop 12 nonce0, None)"
    and "slice_buf msg 12 None = drop 12 msg"
  using assms by (simp_all add: select_nonce_def copy_def slice_buf_def Let_def)

text \<open>
  C1. The nonce buffer is allocated and zeroed once, when the module is loaded, and
  \<^verbatim>\<open>handlePacket\<close> never zeroes it again: after a datagram in suffix mode, whose 24
  trailing bytes fill the buffer, a datagram in lite mode gets its 4 trailing bytes
  followed by the last 20 bytes of the earlier nonce, and a datagram in the legacy mode
  gets its header followed by the last 12. Only on the buffer as loaded is the padding
  zero.
\<close>

theorem nonce_padding_stale:
  "nonce (snd (handlePacket suffix_session alice_suffix_datagram ''alice'' VoiceReceiver_new))
     = replicate 24 0xAA \<and>
   nonce (snd (handlePacket alice_session alice_lite_datagram ''alice''
            (snd (handlePacket suffix_session alice_suffix_datagram ''alice'' VoiceReceiver_new))))
     = [9, 9, 9, 9] @ replicate 20 0xAA \<and>
   nonce (snd (handlePacket legacy_session alice_lite_datagram ''alice''
            (snd (handlePacket suffix_session alice_suffix_datagram ''alice'' VoiceReceiver_new))))
     = [0x90, 0x78, 0, 1, 0, 0, 0, 2, 0, 0, 0, 7] @ replicate 12 0xAA \<and>
   nonce (snd (handlePacket alice_session alice_lite_datagram ''alice'' VoiceReceiver_new))
     = [9, 9, 9, 9] @ replicate 20 0"
  by code_simp

subsection \<open>Speaking timers\<close>

lemma fan_out_timers:
  "notified (fan_out c frame uid r) = notified r"
  "speakingTimeouts (fan_out c frame uid r) = speakingTimeouts r"
  by (simp_all add: fan_out_def emit_def Let_def split: option.splits sum.splits prod.splits)

lemma handlePacket_timers:
  "notified (snd (handlePacket c msg uid r)) = notified r"
  "speakingTimeouts (snd (handlePacket c msg uid r)) = speakingTimeouts r"
  by (simp_all add: handlePacket_def emit_def fan_out_timers Let_def
        split: option.splits sum.splits prod.splits)

lemma speaking_timeout_other:
  "k \<noteq> s \<Longrightarrow>
   notes_for s (speaking_timeout c k u r) = notes_for s r \<and>
   map_of (speakingTimeouts (speaking_timeout c k u r)) s = map_of (speakingTimeouts r) s"
  by (simp add: speaking_timeout_def notes_for_def Let_def delete_conv')

lemma run_speaking_timers_source:
  "distinct (map fst es) \<Longrightarrow>
   notes_for s (run_speaking_timers c now es r) =
     notes_for s r @
       (case map_of es s of
          Some (u, t) \<Rightarrow> if armed t \<and> deadline t \<le> now then [Speaking u s False] else []
        | None \<Rightarrow> []) \<and>
   map_of (speakingTimeouts (run_speaking_timers c now es r)) s =
     (case map_of es s of
        Some (u, t) \<Rightarrow>
          if armed t \<and> deadline t \<le> now
          then (if onSpeaking_throws c (Speaking u s False)
                then Some (u, t\<lparr>armed := False\<rparr>) else None)
          else map_of (speakingTimeouts r) s
      | None \<Rightarrow> map_of (speakingTimeouts r) s)"
proof (induction es arbitrary: r)
  case Nil
  show ?case by simp
next
  case (Cons x es)
  obtain k u t where x: "x = (k, u, t)" by (cases x)
  from Cons.prems have d: "distinct (map fst es)" and kn: "k \<notin> fst ` set es"
    by (simp_all add: x)
  show ?case
  proof (cases "k = s")
    case True
    with kn have n: "map_of es s = None"
      by (simp add: map_of_eq_None_iff)
    show ?thesis
      using Cons.IH [OF d] n True
      by (simp add: x speaking_timeout_def notes_for_def Let_def delete_conv' update_conv')
  next
    case False
    let ?r = "if armed t \<and> deadline t \<le> now
        then speaking_timeout c k u
               (r\<lparr>speakingTimeouts :=
                    AList.update k (u, t\<lparr>armed := False\<rparr>) (speakingTimeouts r)\<rparr>)
        else r"
    have same: "notes_for s ?r = notes_for s r"
      "map_of (speakingTimeouts ?r) s = map_of (speakingTimeouts r) s"
      using False by (simp_all add: speaking_timeout_other update_conv') (simp add: notes_for_def)
    have run: "run_speaking_timers c now (x # es) r = run_speaking_timers c now es ?r"
      by (simp add: x)
    have m: "map_of (x # es) s = map_of es s"
      using False by (simp add: x)
    show ?thesis
      unfolding run m using Cons.IH [OF d, of ?r] by (simp only: same)
  qed
qed


lemma speaking_timeout_distinct:
  "distinct (map fst (speakingTimeouts r)) \<Longrightarrow>
   distinct (map fst (speakingTimeouts (speaking_timeout c k u r)))"
  by (simp add: speaking_timeout_def Let_def distinct_delete)

lemma run_speaking_timers_distinct:
  "distinct (map fst (speakingTimeouts r)) \<Longrightarrow>
   distinct (map fst (speakingTimeouts (run_speaking_timers c now es r)))"
proof (induction es arbitrary: r)
  case Nil
  then show ?case by simp
next
  case (Cons x es)
  obtain k u t where x: "x = (k, u, t)" by (cases x)
  show ?case
    unfolding x using Cons.prems
    by (auto intro!: Cons.IH speaking_timeout_distinct simp: distinct_update)
qed

lemma run_timers_source:
  assumes "distinct (map fst (speakingTimeouts r))"
  shows "notes_for s (run_timers c now r) =
     notes_for s r @
       (case map_of (speakingTimeouts r) s of
          Some (u, t) \<Rightarrow> if armed t \<and> deadline t \<le> now then [Speaking u s False] else []
        | None \<Rightarrow> [])"
    and "map_of (speakingTimeouts (run_timers c now r)) s =
     (case map_of (speakingTimeouts r) s of
        Some (u, t) \<Rightarrow>
          if armed t \<and> deadline t \<le> now
          then (if onSpeaking_throws c (Speaking u s False)
                then Some (u, t\<lparr>armed := False\<rparr>) else None)
          else Some (u, t)
      | None \<Rightarrow> None)"
    and "distinct (map fst (speakingTimeouts (run_timers c now r)))"
proof -
  let ?r = "run_speaking_timers c now (speakingTimeouts r) r"
  have same: "notified (run_timers c now r) = notified ?r"
    "speakingTimeouts (run_timers c now r) = speakingTimeouts ?r"
    by (simp_all add: run_timers_def disconnect_timeout_def emit_def Let_def split: option.splits)
  then have n: "notes_for s (run_timers c now r) = notes_for s ?r"
    by (simp add: notes_for_def)
  note l = run_speaking_timers_source [OF assms, of s c now r]
  show "notes_for s (run_timers c now r) =
     notes_for s r @
       (case map_of (speakingTimeouts r) s of
          Some (u, t) \<Rightarrow> if armed t \<and> deadline t \<le> now then [Speaking u s False] else []
        | None \<Rightarrow> [])"
    using l by (simp add: n)
  show "map_of (speakingTimeouts (run_timers c now r)) s =
     (case map_of (speakingTimeouts r) s of
        Some (u, t) \<Rightarrow>
          if armed t \<and> deadline t \<le> now
          then (if onSpeaking_throws c (Speaking u s False)
                then Some (u, t\<lparr>armed := False\<rparr>) else None)
          else Some (u, t)
      | None \<Rightarrow> None)"
    using l by (simp add: same split: option.splits)
  show "distinct (map fst (speakingTimeouts (run_timers c now r)))"
    using run_speaking_timers_distinct [OF assms] by (simp add: same)
qed

lemma listener_source:
  assumes "readUInt32BE msg 8 = Inr s" and "ssrcMap c s = Some u"
    and "\<not> onSpeaking_throws c (Speaking u s True)"
  shows "notes_for s (snd (listener c now msg r)) =
     notes_for s r @
       (case map_of (speakingTimeouts r) s of None \<Rightarrow> [Speaking u s True] | Some e \<Rightarrow> [])"
    and "map_of (speakingTimeouts (snd (listener c now msg r))) s =
     Some (case map_of (speakingTimeouts r) s of
             None \<Rightarrow> (u, setTimeout now 70)
           | Some (u', t) \<Rightarrow> (u', refresh now t))"
    and "distinct (map fst (speakingTimeouts r)) \<Longrightarrow>
         distinct (map fst (speakingTimeouts (snd (listener c now msg r))))"
proof -
  from assms(1) have "12 \<le> length msg"
    by (simp add: readUInt32BE_def split: if_splits)
  then have r8: "readUInt8 msg 0 = Inr (unat (msg ! 0))"
    by (simp add: readUInt8_def)
  show "notes_for s (snd (listener c now msg r)) =
     notes_for s r @
       (case map_of (speakingTimeouts r) s of None \<Rightarrow> [Speaking u s True] | Some e \<Rightarrow> [])"
    using assms
    by (simp add: listener_def r8 Let_def notes_for_def handlePacket_timers
        split: option.splits prod.splits)
  show "map_of (speakingTimeouts (snd (listener c now msg r))) s =
     Some (case map_of (speakingTimeouts r) s of
             None \<Rightarrow> (u, setTimeout now 70)
           | Some (u', t) \<Rightarrow> (u', refresh now t))"
    using assms
    by (simp add: listener_def r8 Let_def handlePacket_timers update_conv'
        split: option.splits prod.splits)
  show "distinct (map fst (speakingTimeouts (snd (listener c now msg r))))"
    if "distinct (map fst (speakingTimeouts r))"
    using assms that
    by (simp add: listener_def r8 Let_def handlePacket_timers distinct_update
        split: option.splits prod.splits)
qed


lemma listener_other:
  assumes "readUInt32BE msg 8 \<noteq> Inr s"
  shows "notes_for s (snd (listener c now msg r)) = notes_for s r"
    and "map_of (speakingTimeouts (snd (listener c now msg r))) s = map_of (speakingTimeouts r) s"
    and "distinct (map fst (speakingTimeouts r)) \<Longrightarrow>
         distinct (map fst (speakingTimeouts (snd (listener c now msg r))))"
  using assms
  by (auto simp add: listener_def Let_def notes_for_def handlePacket_timers update_conv'
        distinct_update split: option.splits prod.splits sum.splits)


lemma receive_one:
  fixes now :: nat and msg :: buffer
  assumes usr: "ssrcMap c s = Some u"
    and quiet: "\<forall>b. \<not> onSpeaking_throws c (Speaking u s b)"
    and dist: "distinct (map fst (speakingTimeouts r))"
    and rel: "map_of (speakingTimeouts r) s =
                map_option (\<lambda>dl. (u, \<lparr>armed = True, delay = 70, deadline = dl\<rparr>)) st"
  defines "r' \<equiv> snd (listener c now msg (run_timers c now r))"
    and "a \<equiv> (now, readUInt32BE msg 8 = Inr s)"
  shows "notes_for s r' =
           notes_for s r @ (if due st now then [Speaking u s False] else [])
             @ (if snd a \<and> (st = None \<or> due st now) then [Speaking u s True] else [])"
    and "map_of (speakingTimeouts r') s =
           map_option (\<lambda>dl. (u, \<lparr>armed = True, delay = 70, deadline = dl\<rparr>)) (timer_after st a)"
    and "distinct (map fst (speakingTimeouts r'))"
proof -
  let ?m = "run_timers c now r"
  let ?T = "\<lambda>dl. (u, \<lparr>armed = True, delay = 70, deadline = dl\<rparr>)"
  from quiet have q: "\<not> onSpeaking_throws c (Speaking u s True)"
    "\<not> onSpeaking_throws c (Speaking u s False)"
    by simp_all
  note t = run_timers_source(1,2) [OF dist, where s = s and c = c and now = now]
  note td = run_timers_source(3) [OF dist, where c = c and now = now]
  have mn: "notes_for s ?m = notes_for s r @ (if due st now then [Speaking u s False] else [])"
    using t(1) rel by (cases st) (simp_all add: due_def)
  have mt: "map_of (speakingTimeouts ?m) s = map_option ?T (if due st now then None else st)"
    using t(2) rel q(2) by (cases st) (simp_all add: due_def)
  show "notes_for s r' =
           notes_for s r @ (if due st now then [Speaking u s False] else [])
             @ (if snd a \<and> (st = None \<or> due st now) then [Speaking u s True] else [])"
  proof (cases "readUInt32BE msg 8 = Inr s")
    case True
    from listener_source(1) [OF True usr q(1), where now = now and r = ?m] mn mt
    show ?thesis
      unfolding r'_def a_def using True by (cases st) (auto simp add: due_def)
  next
    case False
    from listener_other(1) [OF False, where c = c and now = now and r = ?m] mn
    show ?thesis
      unfolding r'_def a_def using False by simp
  qed
  show "map_of (speakingTimeouts r') s = map_option ?T (timer_after st a)"
  proof (cases "readUInt32BE msg 8 = Inr s")
    case True
    from listener_source(2) [OF True usr q(1), where now = now and r = ?m] mt
    show ?thesis
      unfolding r'_def a_def using True
      by (cases st) (auto simp add: due_def timer_after_def setTimeout_def refresh_def)
  next
    case False
    from listener_other(2) [OF False, where c = c and now = now and r = ?m] mt
    show ?thesis
      unfolding r'_def a_def using False by (simp add: timer_after_def)
  qed
  show "distinct (map fst (speakingTimeouts r'))"
  proof (cases "readUInt32BE msg 8 = Inr s")
    case True
    from listener_source(3) [OF True usr q(1) td, where now = now]
    show ?thesis unfolding r'_def .
  next
    case False
    from listener_other(3) [OF False td, where c = c and now = now]
    show ?thesis unfolding r'_def .
  qed
qed

lemma receive_refines:
  assumes usr: "ssrcMap c s = Some u"
    and quiet: "\<forall>b. \<not> onSpeaking_throws c (Speaking u s b)"
  shows "distinct (map fst (speakingTimeouts r)) \<Longrightarrow>
    map_of (speakingTimeouts r) s =
      map_option (\<lambda>dl. (u, \<lparr>armed = True, delay = 70, deadline = dl\<rparr>)) st \<Longrightarrow>
    notes_for s (receive c ps r) = notes_for s r @ expected_notes u s st (arrivals s ps) \<and>
    map_of (speakingTimeouts (receive c ps r)) s =
      map_option (\<lambda>dl. (u, \<lparr>armed = True, delay = 70, deadline = dl\<rparr>))
        (expected_timer st (arrivals s ps))"
proof (induction ps arbitrary: r st)
  case Nil
  then show ?case by (simp add: arrivals_def)
next
  case (Cons p ps)
  obtain now msg where p: "p = (now, msg)" by (cases p)
  note one = receive_one [OF usr quiet Cons.prems(1) Cons.prems(2), where now = now and msg = msg]
  from Cons.IH [OF one(3) one(2)] one(1)
  show ?case by (simp add: p arrivals_def)
qed


lemma alternating_expected: "alternating (st \<noteq> None) (expected_notes u s st as)"
proof (induction as arbitrary: st)
  case Nil
  show ?case by simp
next
  case (Cons a as)
  from Cons.IH [of "timer_after st a"] show ?case
    by (cases st) (auto simp add: due_def timer_after_def)
qed

lemma expected_no_start:
  "\<forall>a \<in> set as. \<not> snd a \<Longrightarrow>
   filter (\<lambda>n. n = Speaking u s True) (expected_notes u s st as) = []"
  by (induction as arbitrary: st) (auto simp add: timer_after_def)

lemma spaced_late:
  "spaced_under_70 (Some p) as \<Longrightarrow> \<forall>a \<in> set as. p + 70 \<le> fst a \<Longrightarrow> \<forall>a \<in> set as. \<not> snd a"
proof (induction as)
  case Nil
  show ?case by simp
next
  case (Cons a as)
  from Cons.prems have na: "\<not> snd a"
    by (auto split: if_splits)
  with Cons.prems have "spaced_under_70 (Some p) as" "\<forall>a \<in> set as. p + 70 \<le> fst a"
    by simp_all
  with Cons.IH na show ?case by simp
qed

lemma expected_speaking_no_start:
  "sorted (map fst as) \<Longrightarrow> spaced_under_70 (Some p) as \<Longrightarrow>
   filter (\<lambda>n. n = Speaking u s True) (expected_notes u s (Some (p + 70)) as) = []"
proof (induction as arbitrary: p)
  case Nil
  show ?case by simp
next
  case (Cons a as)
  from Cons.prems(1) have srt: "sorted (map fst as)" and le: "\<forall>b \<in> set as. fst a \<le> fst b"
    by simp_all
  show ?case
  proof (cases "p + 70 \<le> fst a")
    case True
    with Cons.prems(2) have na: "\<not> snd a"
      by (auto split: if_splits)
    with Cons.prems(2) have sp: "spaced_under_70 (Some p) as" by simp
    from True le have "\<forall>b \<in> set as. p + 70 \<le> fst b" by auto
    from spaced_late [OF sp this] have "\<forall>b \<in> set as. \<not> snd b" .
    from expected_no_start [OF this, of u s None] True na
    show ?thesis by (simp add: due_def timer_after_def)
  next
    case False
    show ?thesis
    proof (cases "snd a")
      case True
      with Cons.prems(2) have "spaced_under_70 (Some (fst a)) as" by simp
      from Cons.IH [OF srt this] False True
      show ?thesis by (simp add: due_def timer_after_def)
    next
      case na: False
      with Cons.prems(2) have "spaced_under_70 (Some p) as" by simp
      from Cons.IH [OF srt this] False na
      show ?thesis by (simp add: due_def timer_after_def)
    qed
  qed
qed

lemma expected_one_start:
  "sorted (map fst as) \<Longrightarrow> spaced_under_70 None as \<Longrightarrow>
   filter (\<lambda>n. n = Speaking u s True) (expected_notes u s None as) =
     (if \<exists>a \<in> set as. snd a then [Speaking u s True] else [])"
proof (induction as)
  case Nil
  show ?case by simp
next
  case (Cons a as)
  from Cons.prems(1) have srt: "sorted (map fst as)" by simp
  show ?case
  proof (cases "snd a")
    case True
    with Cons.prems(2) have "spaced_under_70 (Some (fst a)) as" by simp
    from expected_speaking_no_start [OF srt this, of u s] True
    show ?thesis by (simp add: due_def timer_after_def)
  next
    case False
    with Cons.prems(2) have "spaced_under_70 None as" by simp
    from Cons.IH [OF srt this] False
    show ?thesis by (simp add: due_def timer_after_def)
  qed
qed

text \<open>
  C3 (as the code has it). Datagrams of any sources arrive at the times given, on a
  receiver that has no speaking timer for a source that resolves to a user and whose
  \<^verbatim>\<open>onSpeaking\<close> does not throw on the notifications of that source; every armed timer
  fires when its deadline has come, before the datagram of that time is handled. Then
  the notifications for the source are those of its timer as the specification describes
  it, whatever the other datagrams are: a start when a datagram of the source finds no
  timer, which arms one of 70 ms; nothing but a new deadline when it finds one; a stop
  when the timer fires. Starts and stops take turns, beginning with a start, so a stop
  comes exactly once before the next start. When the arrival times increase and the
  datagrams of the source are less than 70 ms apart, exactly one start is notified.
\<close>

theorem speaking_notifications:
  assumes "ssrcMap c s = Some u"
    and "\<forall>b. \<not> onSpeaking_throws c (Speaking u s b)"
    and "distinct (map fst (speakingTimeouts r))"
    and "map_of (speakingTimeouts r) s = None"
  shows "notes_for s (receive c ps r) =
           notes_for s r @ expected_notes u s None (arrivals s ps) \<and>
         alternating False (drop (length (notes_for s r)) (notes_for s (receive c ps r))) \<and>
         map_of (speakingTimeouts (receive c ps r)) s =
           map_option (\<lambda>dl. (u, \<lparr>armed = True, delay = 70, deadline = dl\<rparr>))
             (expected_timer None (arrivals s ps)) \<and>
         (sorted (map fst ps) \<and> spaced_under_70 None (arrivals s ps) \<and>
          (\<exists>a \<in> set (arrivals s ps). snd a) \<longrightarrow>
            filter (\<lambda>n. n = Speaking u s True) (notes_for s (receive c ps r)) =
              filter (\<lambda>n. n = Speaking u s True) (notes_for s r) @ [Speaking u s True])"
proof -
  from assms(4) have rel: "map_of (speakingTimeouts r) s =
      map_option (\<lambda>dl. (u, \<lparr>armed = True, delay = 70, deadline = dl\<rparr>)) None"
    by simp
  note ref = receive_refines [OF assms(1) assms(2) assms(3) rel, where ps = ps]
  from ref have eq: "notes_for s (receive c ps r) =
           notes_for s r @ expected_notes u s None (arrivals s ps)"
    by simp
  have alt: "alternating False (drop (length (notes_for s r)) (notes_for s (receive c ps r)))"
    using alternating_expected [of None u s "arrivals s ps"] by (simp add: eq)
  have one: "filter (\<lambda>n. n = Speaking u s True) (notes_for s (receive c ps r)) =
              filter (\<lambda>n. n = Speaking u s True) (notes_for s r) @ [Speaking u s True]"
    if "sorted (map fst ps)" and "spaced_under_70 None (arrivals s ps)"
      and "\<exists>a \<in> set (arrivals s ps). snd a"
  proof -
    have "map fst (arrivals s ps) = map fst ps"
      by (simp add: arrivals_def split_beta)
    with that(1) have "sorted (map fst (arrivals s ps))" by simp
    from expected_one_start [OF this that(2), of u s] that(3)
    show ?thesis by (simp add: eq)
  qed
  from ref eq alt one show ?thesis by blast
qed


theorem speaking_notifications_witness:
  "ssrcMap two_speakers 7 = Some ''alice'' \<and>
   map_of (speakingTimeouts VoiceReceiver_new) 7 = None \<and>
   sorted (map fst [(0, alice_lite_datagram), (10, bob_lite_datagram),
                    (20, alice_lite_datagram), (60 :: nat, alice_lite_datagram)]) \<and>
   spaced_under_70 None (arrivals 7 [(0, alice_lite_datagram), (10, bob_lite_datagram),
                    (20, alice_lite_datagram), (60, alice_lite_datagram)]) \<and>
   filter (\<lambda>n. n = Speaking ''alice'' 7 True)
     (notes_for 7 (receive two_speakers
        [(0, alice_lite_datagram), (10, bob_lite_datagram),
         (20, alice_lite_datagram), (60, alice_lite_datagram)] VoiceReceiver_new))
     = [Speaking ''alice'' 7 True] \<and>
   notes_for 7 (receive two_speakers
      [(0, alice_lite_datagram), (10, bob_lite_datagram), (20, alice_lite_datagram),
       (100, bob_lite_datagram), (200, bob_lite_datagram), (300, alice_lite_datagram)]
      VoiceReceiver_new) =
     [Speaking ''alice'' 7 True, Speaking ''alice'' 7 False, Speaking ''alice'' 7 True] \<and>
   map_of (speakingTimeouts (receive two_speakers
      [(0, alice_lite_datagram), (10, bob_lite_datagram), (20, alice_lite_datagram),
       (100, bob_lite_datagram), (200, bob_lite_datagram), (300, alice_lite_datagram)]
      VoiceReceiver_new)) 7 =
     Some (''alice'', \<lparr>armed = True, delay = 70, deadline = 370\<rparr>)"
proof -
  let ?ps1 = "[(0, alice_lite_datagram), (10, bob_lite_datagram),
               (20, alice_lite_datagram), (60 :: nat, alice_lite_datagram)]"
  let ?ps2 = "[(0 :: nat, alice_lite_datagram), (10, bob_lite_datagram), (20, alice_lite_datagram),
       (100, bob_lite_datagram), (200, bob_lite_datagram), (300, alice_lite_datagram)]"
  have a: "ssrcMap two_speakers 7 = Some ''alice''"
    and b: "\<forall>b. \<not> onSpeaking_throws two_speakers (Speaking ''alice'' 7 b)"
    by (simp_all add: two_speakers_def alice_session_def)
  have e: "distinct (map fst (speakingTimeouts VoiceReceiver_new))"
    "map_of (speakingTimeouts VoiceReceiver_new) 7 = None"
    by (simp_all add: VoiceReceiver_new_def)
  have n: "notes_for 7 VoiceReceiver_new = []"
    by (simp add: VoiceReceiver_new_def notes_for_def)
  have s1: "sorted (map fst ?ps1)" by simp
  have s2: "spaced_under_70 None (arrivals 7 ?ps1)" by code_simp
  have s3: "\<exists>a \<in> set (arrivals 7 ?ps1). snd a" by code_simp
  have x2: "expected_notes ''alice'' 7 None (arrivals 7 ?ps2) =
      [Speaking ''alice'' 7 True, Speaking ''alice'' 7 False, Speaking ''alice'' 7 True]"
    by code_simp
  have t2: "expected_timer None (arrivals 7 ?ps2) = Some 370"
    by code_simp
  note w1 = speaking_notifications [OF a b e, of ?ps1]
  note w2 = speaking_notifications [OF a b e, of ?ps2]
  from w1 [THEN conjunct2, THEN conjunct2, THEN conjunct2, THEN mp,
      OF conjI [OF s1 conjI [OF s2 s3]]]
  have 1: "filter (\<lambda>n. n = Speaking ''alice'' 7 True)
     (notes_for 7 (receive two_speakers ?ps1 VoiceReceiver_new)) = [Speaking ''alice'' 7 True]"
    by (simp only: n filter.simps append_Nil)
  from w2 [THEN conjunct1]
  have 2: "notes_for 7 (receive two_speakers ?ps2 VoiceReceiver_new) =
     [Speaking ''alice'' 7 True, Speaking ''alice'' 7 False, Speaking ''alice'' 7 True]"
    by (simp only: n x2 append_Nil)
  from w2 [THEN conjunct2, THEN conjunct2, THEN conjunct1]
  have 3: "map_of (speakingTimeouts (receive two_speakers ?ps2 VoiceReceiver_new)) 7 =
     Some (''alice'', \<lparr>armed = True, delay = 70, deadline = 370\<rparr>)"
    by (simp only: t2 option.map)
  show ?thesis
    by (intro conjI a e(2) s1 s2 1 2 3)
qed

text \<open>
  C3 (as the specification has it) fails when \<^verbatim>\<open>onSpeaking\<close> throws. A start that
  throws ends the listener before the timer is stored, so each of three datagrams 20 ms
  apart notifies a start. A stop that throws leaves the fired timer in the table, so the
  next datagram re-arms it instead of notifying a start, and every gap notifies another
  stop.
\<close>

theorem speaking_notifications_counterexample:
  "spaced_under_70 None (arrivals 7
     [(0, alice_lite_datagram), (20, alice_lite_datagram), (40, alice_lite_datagram)]) \<and>
   notes_for 7 (receive throwing_session
     [(0, alice_lite_datagram), (20, alice_lite_datagram), (40, alice_lite_datagram)]
     VoiceReceiver_new) =
     [Speaking ''alice'' 7 True, Speaking ''alice'' 7 True, Speaking ''alice'' 7 True] \<and>
   notes_for 7 (receive stop_throwing_session
     [(0, alice_lite_datagram), (100, alice_lite_datagram), (200, alice_lite_datagram)]
     VoiceReceiver_new) =
     [Speaking ''alice'' 7 True, Speaking ''alice'' 7 False, Speaking ''alice'' 7 False]"
  by code_simp

subsection \<open>Sending\<close>

text \<open>
  C10. \<^verbatim>\<open>sendPacket\<close> returns a rejected promise and leaves the state as it is when
  \<^verbatim>\<open>JSON.stringify\<close> throws. \<^verbatim>\<open>send\<close>, and so \<^verbatim>\<open>sendPacket\<close>, returns a rejected
  promise and leaves the state as it is when the state machine holds no transport or
  holds one that is not open. Whatever the call, the only transport that is handed a
  text is the one the state machine holds, and it is open.
\<close>

theorem send_rejects_unless_open:
  "(\<forall>e. stringify c packet = Inl e \<longrightarrow> sendPacket c wr packet s = (Rejected e, s)) \<and>
   (\<not> transport_open s \<longrightarrow>
      send wr data s = (Rejected (NotOpen data), s) \<and>
      (\<exists>e. sendPacket c wr packet s = (Rejected e, s))) \<and>
   (\<forall>h. written (transports (snd (send wr data s)) ! h) \<noteq> written (transports s ! h) \<longrightarrow>
      ws s = Some h \<and> readyState (transports s ! h) = OPEN) \<and>
   (\<forall>h. written (transports (snd (sendPacket c wr packet s)) ! h) \<noteq> written (transports s ! h) \<longrightarrow>
      ws s = Some h \<and> readyState (transports s ! h) = OPEN)"
proof -
  have closed: "send wr x s = (Rejected (NotOpen x), s)" if "\<not> transport_open s" for x
    using that by (auto simp: send_def transport_open_def split: option.splits)
  have hand: "ws s = Some h \<and> readyState (transports s ! h) = OPEN"
    if "written (transports (snd (send wr x s)) ! h) \<noteq> written (transports s ! h)" for x h
  proof (cases "ws s")
    case None
    with that show ?thesis by (simp add: send_def)
  next
    case (Some k)
    show ?thesis
    proof (cases "k = h")
      case True
      with that Some show ?thesis
        by (auto simp: send_def split: if_splits)
    next
      case False
      with that Some show ?thesis
        by (auto simp: send_def split: if_splits)
    qed
  qed
  show ?thesis
    using closed hand
    by (auto simp: sendPacket_def split: sum.splits)
qed

theorem send_rejects_unless_open_witness:
  "stringify example_voice (Heartbeat 0) = Inl (Thrown ''cyclic'') \<and>
   sendPacket example_voice None (Heartbeat 0) (VoiceWebSocket_new example_voice)
     = (Rejected (Thrown ''cyclic''), VoiceWebSocket_new example_voice) \<and>
   \<not> transport_open (VoiceWebSocket_new example_voice) \<and>
   send None ''x'' (VoiceWebSocket_new example_voice)
     = (Rejected (NotOpen ''x''), VoiceWebSocket_new example_voice)"
proof -
  have 1: "stringify example_voice (Heartbeat 0) = Inl (Thrown ''cyclic'')"
    by (simp add: example_voice_def)
  have 2: "\<not> transport_open (VoiceWebSocket_new example_voice)"
    by (simp add: transport_open_def VoiceWebSocket_new_def fresh_websocket_def connect_def Let_def)
  from send_rejects_unless_open [of example_voice "Heartbeat 0" None
      "VoiceWebSocket_new example_voice" "''x''"] 1 2
  show ?thesis by simp
qed


subsection \<open>The ceiling on connection attempts\<close>

lemma clearHeartbeat_fields:
  "attempts (clearHeartbeat s) = attempts s"
  "dead (clearHeartbeat s) = dead s"
  "ws (clearHeartbeat s) = ws s"
  "transports (clearHeartbeat s) = transports s"
  "heartbeatInterval (clearHeartbeat s) = None"
  "debugs (clearHeartbeat s) = debugs s"
  "apiVersion (clearHeartbeat s) = apiVersion s"
  by (simp_all add: clearHeartbeat_def emit_ws_def debugs_def split: option.splits)

lemma reset_fields:
  "attempts (reset s) = attempts s"
  "dead (reset s) = dead s"
  "ws (reset s) = None"
  "heartbeatInterval (reset s) = None"
  "apiVersion (reset s) = apiVersion s"
  "length (transports (reset s)) = length (transports s)"
  "debugs (reset s) = debugs s"
  by (simp_all add: reset_def Let_def clearHeartbeat_def emit_ws_def set_readyState_def debugs_def
        split: option.splits)

lemma reset_transports:
  "transports (reset s) =
     (case ws s of
        Some h \<Rightarrow>
          if readyState (transports s ! h) \<noteq> CLOSED
          then (transports s)[h := (transports s ! h)\<lparr>readyState := CLOSING\<rparr>]
          else transports s
      | None \<Rightarrow> transports s)"
  by (simp add: reset_def Let_def clearHeartbeat_fields set_readyState_def split: option.splits)

lemma reset_tears_down:
  "ws s = Some h \<Longrightarrow> h < length (transports s) \<Longrightarrow>
   readyState (transports (reset s) ! h) \<in> {CLOSING, CLOSED}"
  by (simp add: reset_transports)

lemma connect_opens:
  assumes "\<not> dead s" and "attempts s < 5"
  shows "attempts (connect c s) = attempts s + 1"
    and "\<not> dead (connect c s)"
    and "ws (connect c s) = Some (length (transports s))"
    and "length (transports (connect c s)) = length (transports s) + 1"
    and "readyState (transports (connect c s) ! length (transports s)) = CONNECTING"
    and "debugs (connect c s) = debugs s"
    and "ws s = Some h \<Longrightarrow> h < length (transports s) \<Longrightarrow>
         readyState (transports (connect c s) ! h) \<in> {CLOSING, CLOSED}"
  using assms
  by (auto simp add: connect_def Let_def reset_fields reset_fields(7) [unfolded debugs_def]
        debugs_def nth_append dest: reset_tears_down)

lemma connect_refuses:
  assumes "\<not> dead s" and "attempts s \<ge> 5"
  shows "attempts (connect c s) = attempts s"
    and "ws (connect c s) = None"
    and "length (transports (connect c s)) = length (transports s)"
    and "debugs (connect c s) = debugs s @ [Debug (attempts s)]"
    and "ws s = Some h \<Longrightarrow> h < length (transports s) \<Longrightarrow>
         readyState (transports s ! h) \<noteq> CLOSED \<Longrightarrow>
         readyState (transports (connect c s) ! h) = CLOSING"
  using assms
  by (auto simp add: connect_def Let_def reset_fields reset_fields(7) [unfolded debugs_def]
        emit_ws_def debugs_def reset_transports)

lemma connect_iterated:
  assumes "attempts s = 0" and "\<not> dead s"
  shows "k \<le> 5 \<Longrightarrow>
    attempts ((connect c ^^ k) s) = k \<and> \<not> dead ((connect c ^^ k) s) \<and>
    length (transports ((connect c ^^ k) s)) = length (transports s) + k \<and>
    debugs ((connect c ^^ k) s) = debugs s \<and>
    (0 < k \<longrightarrow>
       ws ((connect c ^^ k) s) = Some (length (transports s) + k - 1) \<and>
       readyState (transports ((connect c ^^ k) s) ! (length (transports s) + k - 1)) = CONNECTING)"
proof (induction k)
  case 0
  with assms show ?case by simp
next
  case (Suc k)
  let ?s = "(connect c ^^ k) s"
  from Suc have ih: "attempts ?s = k" "\<not> dead ?s"
    "length (transports ?s) = length (transports s) + k" "debugs ?s = debugs s"
    by simp_all
  from Suc.prems ih(1) have lt: "attempts ?s < 5" by simp
  note o = connect_opens [OF ih(2) lt, where c = c]
  show ?case
    using o(1-6) ih by simp
qed


text \<open>
  C6. From a state machine that has made no attempt and is not dead, each of the first
  five calls of \<^verbatim>\<open>connect\<close> in a row counts one more attempt, leaves the transport held
  before the call, if any, closing or closed, and holds a new transport, which is
  connecting; none of them emits a \<^verbatim>\<open>debug\<close> event. The sixth call emits one, for 5
  attempts made, creates no transport, and leaves the machine holding none: the fifth
  transport is closing.
\<close>

theorem connect_ceiling:
  assumes "attempts s = 0" and "\<not> dead s"
  shows "(\<forall>k \<in> {1..5}.
           attempts ((connect c ^^ k) s) = k \<and>
           length (transports ((connect c ^^ k) s)) = length (transports s) + k \<and>
           ws ((connect c ^^ k) s) = Some (length (transports s) + k - 1) \<and>
           readyState (transports ((connect c ^^ k) s) ! (length (transports s) + k - 1))
             = CONNECTING \<and>
           (\<forall>h < length (transports ((connect c ^^ (k - 1)) s)).
              ws ((connect c ^^ (k - 1)) s) = Some h \<longrightarrow>
              readyState (transports ((connect c ^^ k) s) ! h) \<in> {CLOSING, CLOSED}) \<and>
           debugs ((connect c ^^ k) s) = debugs s) \<and>
         attempts ((connect c ^^ 6) s) = 5 \<and>
         ws ((connect c ^^ 6) s) = None \<and>
         length (transports ((connect c ^^ 6) s)) = length (transports s) + 5 \<and>
         readyState (transports ((connect c ^^ 6) s) ! (length (transports s) + 4)) = CLOSING \<and>
         debugs ((connect c ^^ 6) s) = debugs s @ [Debug 5]"
proof (intro conjI ballI)
  note it = connect_iterated [OF assms, where c = c]
  {
    fix k :: nat assume "k \<in> {1..5}"
    then have k: "0 < k" "k \<le> 5" "k - 1 \<le> 5" "Suc (k - 1) = k" by auto
    from it [OF k(2)] k(1)
    show "attempts ((connect c ^^ k) s) = k"
      and "length (transports ((connect c ^^ k) s)) = length (transports s) + k"
      and "ws ((connect c ^^ k) s) = Some (length (transports s) + k - 1)"
      and "readyState (transports ((connect c ^^ k) s) ! (length (transports s) + k - 1))
             = CONNECTING"
      and "debugs ((connect c ^^ k) s) = debugs s"
      by simp_all
    let ?p = "(connect c ^^ (k - 1)) s"
    from it [OF k(3)] k have p: "\<not> dead ?p" "attempts ?p < 5" by simp_all
    have "(connect c ^^ k) s = connect c ?p"
      using funpow.simps(2) [of "k - 1" "connect c"] k(4) by simp
    with connect_opens(7) [OF p, where c = c]
    show "\<forall>h < length (transports ?p). ws ?p = Some h \<longrightarrow>
            readyState (transports ((connect c ^^ k) s) ! h) \<in> {CLOSING, CLOSED}"
      by simp
  }
  let ?s5 = "(connect c ^^ 5) s"
  from it [of 5] have s5: "\<not> dead ?s5" "attempts ?s5 = 5"
    "length (transports ?s5) = length (transports s) + 5" "debugs ?s5 = debugs s"
    "ws ?s5 = Some (length (transports s) + 4)"
    "readyState (transports ?s5 ! (length (transports s) + 4)) = CONNECTING"
    by (simp_all add: add.commute)
  have six: "(connect c ^^ 6) s = connect c ?s5"
    using funpow.simps(2) [of 5 "connect c"] by (simp add: eval_nat_numeral)
  from s5(2) have ge: "attempts ?s5 \<ge> 5" by simp
  note r = connect_refuses [OF s5(1) ge, where c = c]
  show "attempts ((connect c ^^ 6) s) = 5"
    using r(1) s5 by (simp add: six)
  show "ws ((connect c ^^ 6) s) = None"
    using r(2) by (simp add: six)
  show "length (transports ((connect c ^^ 6) s)) = length (transports s) + 5"
    using r(3) s5 by (simp add: six)
  show "readyState (transports ((connect c ^^ 6) s) ! (length (transports s) + 4)) = CLOSING"
    using r(5) [of "length (transports s) + 4"] s5 by (simp add: six)
  show "debugs ((connect c ^^ 6) s) = debugs s @ [Debug 5]"
    using r(4) s5 by (simp add: six)
qed

theorem connect_ceiling_witness:
  "attempts fresh_websocket = 0 \<and> \<not> dead fresh_websocket \<and>
   ws ((connect example_voice ^^ 5) fresh_websocket) = Some 4 \<and>
   length (transports ((connect example_voice ^^ 5) fresh_websocket)) = 5 \<and>
   ws ((connect example_voice ^^ 6) fresh_websocket) = None \<and>
   length (transports ((connect example_voice ^^ 6) fresh_websocket)) = 5 \<and>
   debugs ((connect example_voice ^^ 6) fresh_websocket) = [Debug 5]"
proof -
  have f: "attempts fresh_websocket = 0" "\<not> dead fresh_websocket"
    "transports fresh_websocket = []" "debugs fresh_websocket = []"
    by (simp_all add: fresh_websocket_def debugs_def)
  from connect_ceiling [OF f(1) f(2), of example_voice]
  have five: "(\<forall>k \<in> {1..5}.
           ws ((connect example_voice ^^ k) fresh_websocket) = Some (k - 1) \<and>
           length (transports ((connect example_voice ^^ k) fresh_websocket)) = k)"
    and six: "ws ((connect example_voice ^^ 6) fresh_websocket) = None"
      "length (transports ((connect example_voice ^^ 6) fresh_websocket)) = 5"
      "debugs ((connect example_voice ^^ 6) fresh_websocket) = [Debug 5]"
    by (simp_all add: f)
  from five have "ws ((connect example_voice ^^ 5) fresh_websocket) = Some (5 - 1) \<and>
           length (transports ((connect example_voice ^^ 5) fresh_websocket)) = 5"
    by (rule bspec) simp
  with six f show ?thesis by simp
qed

subsection \<open>The heartbeat timer\<close>



lemma handles_ok_fields [simp]:
  "handles_ok (s\<lparr>dead := b\<rparr>) = handles_ok s"
  "handles_ok (s\<lparr>heartbeatInterval := i\<rparr>) = handles_ok s"
  "handles_ok (s\<lparr>events := ev\<rparr>) = handles_ok s"
  "handles_ok (s\<lparr>lastPongPacket := j\<rparr>) = handles_ok s"
  "handles_ok (s\<lparr>attempts := a\<rparr>) = handles_ok s"
  by (simp_all add: handles_ok_def)








lemma send_heartbeat_kept:
  "heartbeatInterval (snd (send wr data s)) = heartbeatInterval s"
  "heartbeatInterval (snd (sendPacket c wr p s)) = heartbeatInterval s"
  by (simp_all add: sendPacket_def send_def split: sum.splits option.splits)



lemma live_transport_fields [simp]:
  "live_transport (s\<lparr>dead := b\<rparr>) = live_transport s"
  "live_transport (s\<lparr>heartbeatInterval := i\<rparr>) = live_transport s"
  "live_transport (s\<lparr>events := ev\<rparr>) = live_transport s"
  "live_transport (s\<lparr>lastPongPacket := j\<rparr>) = live_transport s"
  "live_transport (s\<lparr>attempts := a\<rparr>) = live_transport s"
  "live_transport (s\<lparr>ws := w\<rparr>) = live_transport s"
  by (simp_all add: live_transport_def)





































end
